theory Spec2Isabelle
  imports Complex_Main "HOL-Library.AList" "HOL-Library.Multiset" "HOL-Library.Product_Lexorder"
begin

section \<open>The BM25F in-memory search engine of wink-bm25-text-search\<close>

text \<open>
  The engine is the closure \<^verbatim>\<open>bm25fIMS\<close> of \<^verbatim>\<open>src/wink-bm25-text-search.js\<close>: a set of
  variables and the methods that read and assign them. The variables are the fields of the
  record \<open>state\<close> below; a method is a function from its arguments and the state to its
  outcome and the state it leaves, so that what a call has assigned before it throws stays
  visible.

  Modelling decisions.
  \<^item> A JavaScript object used as a dictionary is the list of its own properties in insertion
    order (\<open>for ... in\<close> follows that order for keys that are not array indices); \<open>o[k] = v\<close>
    is \<open>AList.update k v\<close>.
  \<^item> \<open>documents\<close> and \<open>invertedIdx\<close> are made by \<^verbatim>\<open>Object.create( null )\<close> until
    \<^verbatim>\<open>importJSON\<close> replaces them by objects that \<^verbatim>\<open>JSON.parse\<close> built. Those inherit from
    \<^verbatim>\<open>Object.prototype\<close>, so \<open>o[k]\<close> finds a function there for the names in
    \<open>object_prototype\<close>. The flag \<open>fromJSON\<close> records which of the two the objects are.
  \<^item> The numbers that a caller passes (weights, BM25 parameters) and that a JSON text holds
    are finite: a \<open>real\<close>; so are the lengths and their totals, which are sums of such. The
    numbers that the engine computes by division and logarithm, the stored frequencies, the
    idf values and the scores, are of the type \<open>number\<close>: a real, an infinity or NaN, with
    the arithmetic of IEEE 754 on them. Rounding is not modelled (a finite result is the
    exact real), nor is the sign of zero (the zero of the model is \<open>+0\<close>).
  \<^item> Document ids and terms are strings (property keys are strings in JavaScript).
  \<^item> A preparatory task is a total function on \<open>val\<close>, the text or the tokens that flow
    through a pipeline; the caller's tasks are opaque to the engine.
\<close>

subsection \<open>Numbers\<close>

datatype number = Finite real | PosInf | NegInf | NaN

text \<open>The infinity of the sign of a real; NaN for zero.\<close>

definition infinity :: "real \<Rightarrow> number" where
  "infinity x = (if 0 < x then PosInf else if x < 0 then NegInf else NaN)"

fun sign_of :: "number \<Rightarrow> real" where
  "sign_of (Finite a) = sgn a"
| "sign_of PosInf = 1"
| "sign_of NegInf = - 1"
| "sign_of NaN = 0"

text \<open>
  \<open>x + y\<close>, \<open>x * y\<close>, \<open>x / y\<close>, \<^verbatim>\<open>Math.abs\<close> (written \<open>\<bar>x\<bar>\<close>) and \<^verbatim>\<open>Math.sign\<close> (written
  \<open>sgn x\<close>). NaN absorbs; opposite infinities add up to NaN; zero times an infinity is NaN;
  a finite number divided by zero is the infinity of its sign, and NaN when it is zero
  itself; a finite number divided by an infinity is zero; an infinity divided by an infinity
  is NaN.
\<close>

instantiation number :: "{plus, times, inverse, abs, sgn}"
begin

fun plus_number :: "number \<Rightarrow> number \<Rightarrow> number" where
  "plus_number (Finite a) (Finite b) = Finite (a + b)"
| "plus_number NaN y = NaN"
| "plus_number x NaN = NaN"
| "plus_number PosInf NegInf = NaN"
| "plus_number NegInf PosInf = NaN"
| "plus_number PosInf y = PosInf"
| "plus_number NegInf y = NegInf"
| "plus_number (Finite a) y = y"

fun times_number :: "number \<Rightarrow> number \<Rightarrow> number" where
  "times_number (Finite a) (Finite b) = Finite (a * b)"
| "times_number NaN y = NaN"
| "times_number x NaN = NaN"
| "times_number x y = infinity (sign_of x * sign_of y)"

fun divide_number :: "number \<Rightarrow> number \<Rightarrow> number" where
  "divide_number (Finite a) (Finite b) = (if b = 0 then infinity a else Finite (a / b))"
| "divide_number NaN y = NaN"
| "divide_number x NaN = NaN"
| "divide_number (Finite a) y = Finite 0"
| "divide_number x (Finite b) = infinity (sign_of x * (if b < 0 then - 1 else 1))"
| "divide_number x y = NaN"

fun inverse_number :: "number \<Rightarrow> number" where
  "inverse_number (Finite a) = (if a = 0 then PosInf else Finite (1 / a))"
| "inverse_number NaN = NaN"
| "inverse_number x = Finite 0"

fun abs_number :: "number \<Rightarrow> number" where
  "abs_number (Finite a) = Finite \<bar>a\<bar>"
| "abs_number NaN = NaN"
| "abs_number x = PosInf"

fun sgn_number :: "number \<Rightarrow> number" where
  "sgn_number NaN = NaN"
| "sgn_number x = Finite (sign_of x)"

instance ..

end

text \<open>\<^verbatim>\<open>Math.log\<close> of a finite number.\<close>

definition Math_log :: "real \<Rightarrow> number" where
  "Math_log x = (if 0 < x then Finite (ln x) else if x = 0 then NegInf else NaN)"

text \<open>
  The real that a finite number is, and zero for the others: \<^verbatim>\<open>JSON.stringify\<close> writes
  \<^verbatim>\<open>null\<close> for an infinity and for NaN, and the arithmetic of the engine takes \<^verbatim>\<open>null\<close> for
  zero.
\<close>

fun real_of :: "number \<Rightarrow> real" where
  "real_of (Finite a) = a"
| "real_of x = 0"

fun is_Finite :: "number \<Rightarrow> bool" where
  "is_Finite (Finite a) = True"
| "is_Finite x = False"

subsection \<open>Data\<close>

text \<open>
  The five kinds of error of the specification name the \<^verbatim>\<open>throw Error( ... )\<close> statements of
  the source by their condition. \<open>TypeError\<close> and \<open>SyntaxError\<close> are the exceptions that the
  JavaScript runtime raises itself; \<open>NotANumber\<close> is not an exception (see \<open>search\<close>).
\<close>

datatype error =
  InvalidArgument | InvalidState | DuplicateId | MissingField | InsufficientData
  | TypeError | SyntaxError | NotANumber

datatype val = Text string | Tokens "string list"

type_synonym task = "val \<Rightarrow> val"

record fld =
  fld_pTasks :: "task list"
  fld_pTaskCount :: nat

record bm25Params =
  param_k1 :: real
  param_b :: real
  param_k :: real

record config =
  fldWeights :: "(string \<times> real) list"
  bm25Params :: bm25Params

record document =
  freq :: "(string \<times> number) list"
  length_doc :: real

text \<open>
  What a property of \<open>invertedIdx\<close> holds: the array of ids that \<open>updateFreq\<close> made, or a
  function of \<^verbatim>\<open>Object.prototype\<close> that line 107 has assigned to it (see \<open>freq_loop\<close>), given by
  its \<^verbatim>\<open>length\<close>.
\<close>

datatype posting = Ids "string list" | Function nat

record state =
  pTasks :: "task list"
  pTaskCount :: "nat option"
  flds :: "(string \<times> fld) list"
  documents :: "(string \<times> document) list"
  invertedIdx :: "(string \<times> posting) list"
  fromJSON :: bool
  idf :: "(string \<times> number) list"
  learned :: bool
  consolidated :: bool
  totalDocs :: nat
  totalCorpusLength :: real
  avgCorpusLength :: real
  config :: "config option"

text \<open>The variables as \<^verbatim>\<open>bm25fIMS\<close> initialises them (lines 48 to 73).\<close>

definition init :: state where
  "init = \<lparr> pTasks = [], pTaskCount = None, flds = [], documents = [], invertedIdx = [],
            fromJSON = False, idf = [], learned = False, consolidated = False,
            totalDocs = 0, totalCorpusLength = 0, avgCorpusLength = 0, config = None \<rparr>"

subsection \<open>Property lookup\<close>

text \<open>
  The properties every object inherits from \<^verbatim>\<open>Object.prototype\<close>, each with the \<^verbatim>\<open>length\<close>
  of the function it holds; \<^verbatim>\<open>__proto__\<close> yields the prototype object itself, which has no
  \<^verbatim>\<open>length\<close>.
\<close>

definition object_prototype :: "(string \<times> nat option) list" where
  "object_prototype =
     [(''constructor'', Some 1), (''toString'', Some 0), (''toLocaleString'', Some 0),
      (''valueOf'', Some 0), (''hasOwnProperty'', Some 1), (''isPrototypeOf'', Some 1),
      (''propertyIsEnumerable'', Some 1), (''__defineGetter__'', Some 2),
      (''__defineSetter__'', Some 2), (''__lookupGetter__'', Some 1),
      (''__lookupSetter__'', Some 1), (''__proto__'', None)]"

datatype 'v property = Undefined | Own 'v | Inherited "nat option"

text \<open>\<open>get_prop inherits o k\<close> is \<open>o[k]\<close>; \<open>inherits\<close> says that \<open>o\<close> has \<^verbatim>\<open>Object.prototype\<close>.\<close>

definition get_prop :: "bool \<Rightarrow> (string \<times> 'v) list \<Rightarrow> string \<Rightarrow> 'v property" where
  "get_prop inherits obj key =
     (case map_of obj key of
        Some v \<Rightarrow> Own v
      | None \<Rightarrow>
          (if inherits then
             (case map_of object_prototype key of Some a \<Rightarrow> Inherited a | None \<Rightarrow> Undefined)
           else Undefined))"

subsection \<open>prepareInput (lines 84 to 92)\<close>

text \<open>
  The loop \<^verbatim>\<open>for ( i = 0; i < ptc; i += 1 ) processedInput = pt[ i ]( processedInput )\<close>:
  \<open>run_tasks pt i n x\<close> has \<open>n\<close> rounds left from index \<open>i\<close>. Calling \<open>pt[i]\<close> beyond the end
  of \<open>pt\<close> calls \<^verbatim>\<open>undefined\<close>, a TypeError.
\<close>

fun run_tasks :: "task list \<Rightarrow> nat \<Rightarrow> nat \<Rightarrow> val \<Rightarrow> error + val" where
  "run_tasks pt i 0 x = Inr x"
| "run_tasks pt i (Suc n) x =
     (if i < length pt then run_tasks pt (Suc i) n ((pt ! i) x) else Inl TypeError)"

text \<open>
  \<^verbatim>\<open>pt = ( flds[ field ] && flds[ field ].pTasks ) || pTasks\<close>: an array is truthy even when
  empty, so a field with tasks of its own always uses them.
  \<^verbatim>\<open>ptc = ( flds[ field ] && flds[ field ].pTaskCount ) || pTaskCount\<close>: the count \<open>0\<close> is
  falsy, so a field whose own pipeline is empty takes the default count. \<open>pTaskCount\<close> is
  \<^verbatim>\<open>undefined\<close> until the first default definition; \<^verbatim>\<open>i < undefined\<close> is false.
\<close>

definition prepareInput :: "state \<Rightarrow> val \<Rightarrow> string \<Rightarrow> error + val" where
  "prepareInput s input field =
     (let pt = (case map_of (flds s) field of Some f \<Rightarrow> fld_pTasks f | None \<Rightarrow> pTasks s);
          ptc = (case map_of (flds s) field of
                   Some f \<Rightarrow> (if fld_pTaskCount f \<noteq> 0 then Some (fld_pTaskCount f)
                              else pTaskCount s)
                 | None \<Rightarrow> pTaskCount s)
      in run_tasks pt 0 (case ptc of None \<Rightarrow> 0 | Some n \<Rightarrow> n) input)"

text \<open>
  \<^verbatim>\<open>tkns.length\<close> and \<^verbatim>\<open>tkns[ i ]\<close>: of an array its elements, of a string (the input that no
  task has tokenized) its characters.
\<close>

fun tokens :: "val \<Rightarrow> string list" where
  "tokens (Tokens ts) = ts"
| "tokens (Text txt) = map (\<lambda>c. [c]) txt"

subsection \<open>updateFreq (lines 98 to 115)\<close>

text \<open>
  The loop over the tokens. It assigns to \<open>freq\<close>, which is \<open>documents[id].freq\<close>, and to
  \<open>invertedIdx\<close>; both are returned, also when the loop throws. \<open>freq\<close> was made by
  \<^verbatim>\<open>Object.create( null )\<close> and inherits nothing. When \<open>invertedIdx[t]\<close> is inherited,
  \<^verbatim>\<open>invertedIdx[ t ] || []\<close> is the inherited value: for a function, the assignment of line 107
  makes it an own property of the index, for \<^verbatim>\<open>__proto__\<close> it calls the setter, which leaves
  the index as it is. In both cases, and when the own property is such a function already,
  \<^verbatim>\<open>push\<close> is not a function of it: line 108 is a TypeError.
\<close>

fun freq_loop ::
  "bool \<Rightarrow> string \<Rightarrow> real \<Rightarrow> string list \<Rightarrow> (string \<times> number) list \<Rightarrow> (string \<times> posting) list
     \<Rightarrow> error option \<times> (string \<times> number) list \<times> (string \<times> posting) list" where
  "freq_loop inh did weight [] fr ix = (None, fr, ix)"
| "freq_loop inh did weight (t # ts) fr ix =
     (case map_of fr t of
        None \<Rightarrow>
          (case get_prop inh ix t of
             Undefined \<Rightarrow>
               freq_loop inh did weight ts (AList.update t (Finite weight) fr)
                 (AList.update t (Ids [did]) ix)
           | Own (Ids ids) \<Rightarrow>
               freq_loop inh did weight ts (AList.update t (Finite weight) fr)
                 (AList.update t (Ids (ids @ [did])) ix)
           | Own (Function a) \<Rightarrow> (Some TypeError, AList.update t (Finite weight) fr, ix)
           | Inherited (Some a) \<Rightarrow>
               (Some TypeError, AList.update t (Finite weight) fr, AList.update t (Function a) ix)
           | Inherited None \<Rightarrow> (Some TypeError, AList.update t (Finite weight) fr, ix))
      | Some f \<Rightarrow> freq_loop inh did weight ts (AList.update t (f + Finite weight) fr) ix)"

text \<open>
  \<open>updateFreq id text weight freq field\<close>, with the state for \<open>invertedIdx\<close> and the
  pipelines. It returns the weighted length \<^verbatim>\<open>tkns.length * Math.abs( weight )\<close>, the
  frequencies and the state.
\<close>

definition updateFreq ::
  "string \<Rightarrow> val \<Rightarrow> real \<Rightarrow> (string \<times> number) list \<Rightarrow> string \<Rightarrow> state
     \<Rightarrow> (error + real) \<times> (string \<times> number) list \<times> state" where
  "updateFreq did txt weight fr field s =
     (case prepareInput s txt field of
        Inl e \<Rightarrow> (Inl e, fr, s)
      | Inr tkns \<Rightarrow>
          (case freq_loop (fromJSON s) did weight (tokens tkns) fr (invertedIdx s) of
             (Some e, fr', ix') \<Rightarrow> (Inl e, fr', s\<lparr>invertedIdx := ix'\<rparr>)
           | (None, fr', ix') \<Rightarrow>
               (Inr (real (length (tokens tkns)) * \<bar>weight\<bar>), fr', s\<lparr>invertedIdx := ix'\<rparr>)))"

subsection \<open>addDoc (lines 234 to 262)\<close>

text \<open>
  The loop \<^verbatim>\<open>for ( var field in fldWeights )\<close>. \<open>d\<close> is \<open>documents[id]\<close>, kept in step with the
  state. A document is what \<open>doc[field]\<close> yields: \<open>None\<close> is \<^verbatim>\<open>undefined\<close>.
\<close>

fun field_loop ::
  "string \<Rightarrow> (string \<Rightarrow> string option) \<Rightarrow> (string \<times> real) list \<Rightarrow> document \<Rightarrow> state
     \<Rightarrow> error option \<times> state" where
  "field_loop did doc [] d s = (None, s)"
| "field_loop did doc ((field, weight) # fws) d s =
     (case doc field of
        None \<Rightarrow> (Some MissingField, s)
      | Some txt \<Rightarrow>
          (case updateFreq did (Text txt) weight (freq d) field s of
             (Inl e, fr', s') \<Rightarrow>
               (Some e, s'\<lparr>documents := AList.update did (d\<lparr>freq := fr'\<rparr>) (documents s')\<rparr>)
           | (Inr len, fr', s') \<Rightarrow>
               (let d' = d\<lparr>freq := fr', length_doc := length_doc d + len\<rparr>
                in field_loop did doc fws d'
                     (s'\<lparr>documents := AList.update did d' (documents s'),
                         totalCorpusLength := totalCorpusLength s' + len\<rparr>))))"

definition addDoc :: "(string \<Rightarrow> string option) \<Rightarrow> string \<Rightarrow> state \<Rightarrow> (error + nat) \<times> state" where
  "addDoc doc did s =
     (case config s of
        None \<Rightarrow> (Inl InvalidState, s)
      | Some c \<Rightarrow>
          (if consolidated s then (Inl InvalidState, s)
           else
             (let s1 = s\<lparr>learned := True\<rparr> in
              (case get_prop (fromJSON s1) (documents s1) did of
                 Undefined \<Rightarrow>
                   (let d = \<lparr>freq = [], length_doc = 0\<rparr>;
                        s2 = s1\<lparr>documents := AList.update did d (documents s1)\<rparr>
                    in (case field_loop did doc (fldWeights c) d s2 of
                          (Some e, s3) \<Rightarrow> (Inl e, s3)
                        | (None, s3) \<Rightarrow>
                            (Inr (totalDocs s3 + 1), s3\<lparr>totalDocs := totalDocs s3 + 1\<rparr>)))
               | _ \<Rightarrow> (Inl DuplicateId, s1)))))"

subsection \<open>consolidate (lines 268 to 302)\<close>

text \<open>\<^verbatim>\<open>invertedIdx[ t ].length\<close>.\<close>

fun posting_length :: "posting \<Rightarrow> nat" where
  "posting_length (Ids ids) = length ids"
| "posting_length (Function a) = a"

text \<open>
  With fewer than three documents the method throws before it assigns anything. Reading
  \<^verbatim>\<open>config.bm25Params\<close> of a \<^verbatim>\<open>null\<close> configuration is a TypeError. The two \<open>for ... in\<close>
  loops over the documents and their frequencies are the two \<open>map\<close>s; the loop over the
  inverted index assigns \<open>idf[t]\<close> term by term. \<open>totalDocs\<close> is at least 3 where it divides,
  so \<open>avgCorpusLength\<close> and the argument of the logarithm are finite; the other quotients
  are quotients of \<open>number\<close>.
\<close>

definition consolidate :: "state \<Rightarrow> (error + bool) \<times> state" where
  "consolidate s =
     (if totalDocs s < 3 then (Inl InsufficientData, s)
      else
        (case config s of
           None \<Rightarrow> (Inl TypeError, s)
         | Some c \<Rightarrow>
             (let b = param_b (bm25Params c);
                  k1 = param_k1 (bm25Params c);
                  k = param_k (bm25Params c);
                  avg = totalCorpusLength s / real (totalDocs s);
                  docs = map (\<lambda>(did, d).
                           (let normalizationFactor =
                                  Finite (1 - b) + (Finite b * (Finite (length_doc d) / Finite avg))
                            in (did, d\<lparr>freq := map (\<lambda>(t, f).
                                  (t, sgn f * \<bar>(f * Finite (k1 + 1))
                                                / ((Finite k1 * normalizationFactor) + f)\<bar>))
                                  (freq d)\<rparr>)))
                         (documents s);
                  idf' = fold (\<lambda>(t, p) m.
                           AList.update t
                             (Math_log (((real (totalDocs s) - real (posting_length p))
                                           / real (totalDocs s)) + k)) m)
                         (invertedIdx s) (idf s)
              in (Inr True,
                  s\<lparr>avgCorpusLength := avg, documents := docs, idf := idf',
                    consolidated := True\<rparr>))))"

subsection \<open>search (lines 310 to 347)\<close>

text \<open>
  \<open>o[ k ]\<close> as an operand of a product: a missing property is \<^verbatim>\<open>undefined\<close>, which is NaN as
  a number (and so is a function that \<open>o\<close> inherits).
\<close>

definition operand :: "(string \<times> number) list \<Rightarrow> string \<Rightarrow> number" where
  "operand obj key = (case map_of obj key of None \<Rightarrow> NaN | Some x \<Rightarrow> x)"

text \<open>\<^verbatim>\<open>results[ id ] || 0\<close>: \<^verbatim>\<open>undefined\<close>, NaN and zero are falsy.\<close>

fun or_zero :: "number option \<Rightarrow> number" where
  "or_zero None = Finite 0"
| "or_zero (Some NaN) = Finite 0"
| "or_zero (Some r) = r"

text \<open>
  The inner loop over the ids of one term,
  \<^verbatim>\<open>results[ id ] = ( documents[ id ].freq[ t ] * idf[ t ] ) + ( results[ id ] || 0 )\<close>.
  Reading \<^verbatim>\<open>.freq\<close> of a missing document is a TypeError, and so is reading \<^verbatim>\<open>.freq[ t ]\<close> of
  an inherited function, which has no \<^verbatim>\<open>freq\<close>.
\<close>

fun id_loop ::
  "state \<Rightarrow> string \<Rightarrow> string list \<Rightarrow> (string \<times> number) list \<Rightarrow> error + (string \<times> number) list" where
  "id_loop s t [] results = Inr results"
| "id_loop s t (did # ids) results =
     (case get_prop (fromJSON s) (documents s) did of
        Own d \<Rightarrow>
          id_loop s t ids
            (AList.update did
               ((operand (freq d) t * operand (idf s) t) + or_zero (map_of results did))
               results)
      | _ \<Rightarrow> Inl TypeError)"

text \<open>
  The outer loop over the tokens. When \<open>invertedIdx[t]\<close> is a function, inherited or own, or
  the prototype that \<^verbatim>\<open>__proto__\<close> yields, its \<^verbatim>\<open>length\<close> bounds the inner loop (the prototype
  has none, and the loop does not run) and each \<open>ids[i]\<close> is \<^verbatim>\<open>undefined\<close>, which as a
  property key is the string \<open>undefined\<close>.
\<close>

fun token_loop ::
  "state \<Rightarrow> string list \<Rightarrow> (string \<times> number) list \<Rightarrow> error + (string \<times> number) list" where
  "token_loop s [] results = Inr results"
| "token_loop s (t # ts) results =
     (case get_prop (fromJSON s) (invertedIdx s) t of
        Undefined \<Rightarrow> token_loop s ts results
      | Own (Ids ids) \<Rightarrow>
          (case id_loop s t ids results of
             Inl e \<Rightarrow> Inl e
           | Inr results' \<Rightarrow> token_loop s ts results')
      | Own (Function a) \<Rightarrow>
          (case id_loop s t (replicate a ''undefined'') results of
             Inl e \<Rightarrow> Inl e
           | Inr results' \<Rightarrow> token_loop s ts results')
      | Inherited a \<Rightarrow>
          (case id_loop s t (replicate (case a of None \<Rightarrow> 0 | Some n \<Rightarrow> n) ''undefined'') results of
             Inl e \<Rightarrow> Inl e
           | Inr results' \<Rightarrow> token_loop s ts results'))"

text \<open>
  Modelled from the spec: \<^verbatim>\<open>helpers.object.table\<close> belongs to the package wink-helpers, which
  is not under src/. "Produce an list of (id, score) pairs": the pairs of the object's
  properties, in their order.
\<close>

definition table :: "(string \<times> number) list \<Rightarrow> (string \<times> number) list" where
  "table obj = obj"

text \<open>
  Modelled from the spec: \<^verbatim>\<open>helpers.array.descendingOnValue\<close>, the comparator given to
  \<^verbatim>\<open>sort\<close>, belongs to wink-helpers as well. "sort descending by score (ties: order is
  unspecified / stable by insertion)": the model sorts stably, the infinities at the two
  ends. No comparison with NaN holds, so with NaN among the scores a comparator is not an
  order and what \<^verbatim>\<open>sort\<close> returns depends on the implementation: there the model stops with
  \<open>NotANumber\<close>.
\<close>

fun descending_key :: "number \<Rightarrow> int \<times> real" where
  "descending_key PosInf = (- 1, 0)"
| "descending_key (Finite a) = (0, - a)"
| "descending_key NegInf = (1, 0)"
| "descending_key NaN = (2, 0)"

definition sort_descendingOnValue ::
  "(string \<times> number) list \<Rightarrow> error + (string \<times> number) list" where
  "sort_descendingOnValue pairs =
     (if NaN \<in> set (map snd pairs) then Inl NotANumber
      else Inr (sort_key (\<lambda>p. descending_key (snd p)) pairs))"

text \<open>
  \<^verbatim>\<open>Math.max( ( limit || 10 ), 1 )\<close>, for an integer limit; \<open>None\<close> is the absent argument. Zero
  is falsy.
\<close>

definition slice_end :: "int option \<Rightarrow> nat" where
  "slice_end limit =
     nat (max (case limit of None \<Rightarrow> 10 | Some n \<Rightarrow> (if n = 0 then 10 else n)) 1)"

text \<open>The text is \<open>None\<close> when the argument is not a string. \<open>search\<close> assigns no variable.\<close>

definition search :: "string option \<Rightarrow> int option \<Rightarrow> state \<Rightarrow> error + (string \<times> number) list" where
  "search text limit s =
     (if \<not> consolidated s then Inl InvalidState
      else
        (case text of
           None \<Rightarrow> Inl InvalidArgument
         | Some txt \<Rightarrow>
             (case prepareInput s (Text txt) ''search'' of
                Inl e \<Rightarrow> Inl e
              | Inr tkns \<Rightarrow>
                  (case token_loop s (tokens tkns) [] of
                     Inl e \<Rightarrow> Inl e
                   | Inr results \<Rightarrow>
                       (case sort_descendingOnValue (table results) of
                          Inl e \<Rightarrow> Inl e
                        | Inr pairs \<Rightarrow> Inr (take (slice_end limit) pairs))))))"

subsection \<open>reset, exportJSON and importJSON (lines 353 to 426)\<close>

definition reset :: "state \<Rightarrow> (error + bool) \<times> state" where
  "reset s =
     (Inr True,
      s\<lparr>documents := [], invertedIdx := [], fromJSON := False, idf := [], learned := False,
        consolidated := False, totalDocs := 0, totalCorpusLength := 0, avgCorpusLength := 0,
        config := None\<rparr>)"

text \<open>
  The JSON text is modelled by what \<^verbatim>\<open>JSON.parse\<close> makes of it, as far as \<^verbatim>\<open>importJSON\<close> looks:
  \<open>Falsy\<close> is the empty string (or \<^verbatim>\<open>null\<close>, \<^verbatim>\<open>undefined\<close>), \<open>Unparseable\<close> a text that
  \<^verbatim>\<open>JSON.parse\<close> rejects, \<open>NotArray4\<close> a value that is not an array of four elements. The
  elements of an array of four are objects of the types the engine stores there, or not
  objects (\<^verbatim>\<open>null\<close>, a number, a string, a boolean, an array). A JSON text holds strings,
  finite numbers and arrays of ids, and no function: \<^verbatim>\<open>JSON.stringify\<close> leaves out a property
  that holds a function and writes \<^verbatim>\<open>null\<close>, read as zero, for a number that is not finite;
  followed by \<^verbatim>\<open>JSON.parse\<close> it is taken to give back the strings and the finite numbers it was
  given.
\<close>

record docStats =
  stats_totalCorpusLength :: real
  stats_totalDocs :: nat

record json_document =
  json_freq :: "(string \<times> real) list"
  json_length :: real

datatype 'a element = NotObject | Object 'a

datatype json =
  Falsy | Unparseable | NotArray4
  | Array4 "config element" "docStats element" "(string \<times> json_document) list element"
      "(string \<times> string list) list element"

definition stringify_document :: "document \<Rightarrow> json_document" where
  "stringify_document d =
     \<lparr>json_freq = map (\<lambda>(t, f). (t, real_of f)) (freq d), json_length = length_doc d\<rparr>"

definition parse_document :: "json_document \<Rightarrow> document" where
  "parse_document d =
     \<lparr>freq = map (\<lambda>(t, f). (t, Finite f)) (json_freq d), length_doc = json_length d\<rparr>"

definition exportJSON :: "state \<Rightarrow> json" where
  "exportJSON s =
     Array4 (case config s of None \<Rightarrow> NotObject | Some c \<Rightarrow> Object c)
       (Object \<lparr>stats_totalCorpusLength = totalCorpusLength s, stats_totalDocs = totalDocs s\<rparr>)
       (Object (map (\<lambda>(did, d). (did, stringify_document d)) (documents s)))
       (Object (List.map_filter
                  (\<lambda>(t, p). case p of Ids ids \<Rightarrow> Some (t, ids) | Function a \<Rightarrow> None)
                  (invertedIdx s)))"

definition importJSON :: "json \<Rightarrow> state \<Rightarrow> (error + bool) \<times> state" where
  "importJSON j s =
     (case j of
        Falsy \<Rightarrow> (Inl InvalidArgument, s)
      | Unparseable \<Rightarrow> (Inl SyntaxError, s)
      | NotArray4 \<Rightarrow> (Inl InvalidArgument, s)
      | Array4 e0 e1 e2 e3 \<Rightarrow>
          (case (e0, e1, e2, e3) of
             (Object c, Object ds, Object docs, Object ix) \<Rightarrow>
               (Inr True,
                (snd (reset s))\<lparr>learned := True, config := Some c,
                  totalCorpusLength := stats_totalCorpusLength ds,
                  totalDocs := stats_totalDocs ds,
                  documents := map (\<lambda>(did, d). (did, parse_document d)) docs,
                  invertedIdx := map (\<lambda>(t, ids). (t, Ids ids)) ix,
                  fromJSON := True\<rparr>)
           | _ \<Rightarrow> (Inl InvalidArgument, s)))"

subsection \<open>definePrepTasks (lines 130 to 145)\<close>

text \<open>
  \<open>tasks\<close> is \<open>None\<close> when the argument is not an array; an element is \<open>None\<close> when it is not
  a function. The field is absent (\<^verbatim>\<open>undefined\<close> or \<^verbatim>\<open>null\<close>), a string, or something else.
\<close>

datatype field_arg = NoField | Field string | NotString

definition definePrepTasks ::
  "task option list option \<Rightarrow> field_arg \<Rightarrow> state \<Rightarrow> (error + nat) \<times> state" where
  "definePrepTasks tasks field s =
     (case tasks of
        None \<Rightarrow> (Inl InvalidArgument, s)
      | Some elems \<Rightarrow>
          (case those elems of
             None \<Rightarrow> (Inl InvalidArgument, s)
           | Some ts \<Rightarrow>
               (case field of
                  NoField \<Rightarrow> (Inr (length ts), s\<lparr>pTasks := ts, pTaskCount := Some (length ts)\<rparr>)
                | NotString \<Rightarrow> (Inl InvalidArgument, s)
                | Field f \<Rightarrow>
                    (Inr (length ts),
                     s\<lparr>flds := AList.update f \<lparr>fld_pTasks = ts, fld_pTaskCount = length ts\<rparr>
                                 (flds s)\<rparr>))))"

subsection \<open>defineConfig (lines 163 to 228)\<close>

text \<open>
  The argument: \<open>None\<close> when it is not an object. \<open>cfg_fldWeights\<close> is \<open>None\<close> when
  \<^verbatim>\<open>cfg.fldWeights\<close> is not an object; a weight is \<open>None\<close> when it is \<^verbatim>\<open>null\<close> or not a number.
  \<open>cfg_bm25Params\<close> is \<open>None\<close> when \<^verbatim>\<open>cfg.bm25Params\<close> is not an object; a parameter is
  \<open>None\<close> when it is \<^verbatim>\<open>null\<close>, \<^verbatim>\<open>undefined\<close> or not a number.
\<close>

record cfg_params =
  cfg_k1 :: "real option"
  cfg_b :: "real option"
  cfg_k :: "real option"

record cfg =
  cfg_fldWeights :: "(string \<times> real option) list option"
  cfg_bm25Params :: "cfg_params option"

text \<open>The loop \<^verbatim>\<open>for ( var field in cfg.fldWeights )\<close>; it throws at the first bad weight.\<close>

fun weights_loop ::
  "(string \<times> real option) list \<Rightarrow> (string \<times> real) list \<Rightarrow> error option \<times> (string \<times> real) list" where
  "weights_loop [] fw = (None, fw)"
| "weights_loop ((field, w) # ws) fw =
     (case w of
        None \<Rightarrow> (Some InvalidArgument, fw)
      | Some x \<Rightarrow> weights_loop ws (AList.update field x fw))"

definition default_bm25Params :: bm25Params where
  "default_bm25Params = \<lparr>param_k1 = 1.2, param_b = 0.75, param_k = 1\<rparr>"

definition defineConfig :: "cfg option \<Rightarrow> state \<Rightarrow> (error + bool) \<times> state" where
  "defineConfig arg s =
     (if learned s then (Inl InvalidState, s)
      else
        (case arg of
           None \<Rightarrow> (Inl InvalidArgument, s)
         | Some c \<Rightarrow>
             (case cfg_fldWeights c of
                None \<Rightarrow> (Inl InvalidArgument, s)
              | Some ws \<Rightarrow>
                  (if length ws = 0 then (Inl InvalidArgument, s)
                   else
                     (case weights_loop ws [] of
                        (Some e, fw) \<Rightarrow>
                          (Inl e,
                           s\<lparr>config := Some \<lparr>fldWeights = fw, bm25Params = default_bm25Params\<rparr>\<rparr>)
                      | (None, fw) \<Rightarrow>
                          (let p = (case cfg_bm25Params c of
                                      None \<Rightarrow> \<lparr>cfg_k1 = None, cfg_b = None, cfg_k = None\<rparr>
                                    | Some q \<Rightarrow> q)
                           in (Inr True,
                               s\<lparr>config := Some
                                   \<lparr>fldWeights = fw,
                                    bm25Params =
                                      \<lparr>param_k1 = (case cfg_k1 p of None \<Rightarrow> 1.2 | Some x \<Rightarrow> x),
                                       param_b = (case cfg_b p of None \<Rightarrow> 0.75 | Some x \<Rightarrow> x),
                                       param_k = (case cfg_k p of None \<Rightarrow> 1 | Some x \<Rightarrow> x)\<rparr>\<rparr>\<rparr>)))))))"

section \<open>Instances\<close>

subsection \<open>Reachable states\<close>

text \<open>
  The lists in a parsed JSON text stand for objects: an object has each key once.
\<close>

fun is_objects :: "json \<Rightarrow> bool" where
  "is_objects (Array4 c ds (Object docs) (Object ix)) =
     (distinct (map fst docs) \<and> distinct (map fst ix))"
| "is_objects j = True"

text \<open>
  The states of an instance: the initial one and what any call of a method leaves, whether
  the call returns or throws. \<open>search\<close> assigns nothing and needs no rule.
\<close>

inductive reachable :: "state \<Rightarrow> bool" where
  reachable_init: "reachable init"
| reachable_definePrepTasks: "reachable s \<Longrightarrow> reachable (snd (definePrepTasks tasks field s))"
| reachable_defineConfig: "reachable s \<Longrightarrow> reachable (snd (defineConfig arg s))"
| reachable_addDoc: "reachable s \<Longrightarrow> reachable (snd (addDoc doc did s))"
| reachable_consolidate: "reachable s \<Longrightarrow> reachable (snd (consolidate s))"
| reachable_reset: "reachable s \<Longrightarrow> reachable (snd (reset s))"
| reachable_importJSON: "reachable s \<Longrightarrow> is_objects j \<Longrightarrow> reachable (snd (importJSON j s))"


text \<open>
  The states built without \<open>importJSON\<close> and before \<open>consolidate\<close>: by pipeline and
  configuration definitions, \<open>addDoc\<close> calls (returning or throwing) and resets. \<open>built h s\<close>
  holds of such a state \<open>s\<close> together with the log \<open>h\<close> of the documents added to it, each
  with the tokens that section 4.3 of the specification has indexed for it: for each
  configured field, in the order of the configuration, the tokens that the field's pipeline
  makes of the field's text, up to the first field that the document lacks or whose
  pipeline throws. A call of \<open>addDoc\<close> that ends with InvalidState or DuplicateId adds no
  document; every other call does, whether it returns or throws.
\<close>

fun indexed_tokens ::
  "state \<Rightarrow> (string \<Rightarrow> string option) \<Rightarrow> (string \<times> real) list \<Rightarrow> string list" where
  "indexed_tokens s doc [] = []"
| "indexed_tokens s doc ((field, weight) # fws) =
     (case doc field of
        None \<Rightarrow> []
      | Some str \<Rightarrow>
          (case prepareInput s (Text str) field of
             Inl e \<Rightarrow> []
           | Inr v \<Rightarrow> tokens v @ indexed_tokens s doc fws))"

definition doc_tokens :: "state \<Rightarrow> (string \<Rightarrow> string option) \<Rightarrow> string list" where
  "doc_tokens s doc =
     (case config s of None \<Rightarrow> [] | Some c \<Rightarrow> indexed_tokens s doc (fldWeights c))"

definition rejected :: "error + nat \<Rightarrow> bool" where
  "rejected r = (r = Inl InvalidState \<or> r = Inl DuplicateId)"

inductive built :: "(string \<times> string list) list \<Rightarrow> state \<Rightarrow> bool" where
  built_init: "built [] init"
| built_definePrepTasks: "built h s \<Longrightarrow> built h (snd (definePrepTasks tasks field s))"
| built_defineConfig: "built h s \<Longrightarrow> built h (snd (defineConfig arg s))"
| built_addDoc_rejected:
    "built h s \<Longrightarrow> rejected (fst (addDoc doc did s)) \<Longrightarrow> built h (snd (addDoc doc did s))"
| built_addDoc:
    "built h s \<Longrightarrow> \<not> rejected (fst (addDoc doc did s))
       \<Longrightarrow> built (h @ [(did, doc_tokens s doc)]) (snd (addDoc doc did s))"
| built_reset: "built h s \<Longrightarrow> built [] (snd (reset s))"

text \<open>
  What every reachable state satisfies (\<open>reachable_invariant\<close> below): documents are counted
  only under a configuration; a consolidated instance has at least three documents; the idf
  table is empty before consolidation and never has a term that the inverted index lacks;
  the inverted index has each term once; and \<open>learned\<close> is set once there are documents.
\<close>

definition invariant :: "state \<Rightarrow> bool" where
  "invariant s =
     ((config s = None \<longrightarrow> totalDocs s = 0) \<and>
      (consolidated s \<longrightarrow> 3 \<le> totalDocs s) \<and>
      (\<not> consolidated s \<longrightarrow> idf s = []) \<and>
      set (map fst (idf s)) \<subseteq> set (map fst (invertedIdx s)) \<and>
      distinct (map fst (invertedIdx s)) \<and>
      (documents s \<noteq> [] \<or> fromJSON s \<longrightarrow> learned s))"

subsection \<open>The specification's formulas\<close>

text \<open>
  Section 4.4 of the specification:
  \<open>normFactor = (1 - b) + b * (docLength / avgCorpusLength)\<close>, and the stored frequency \<open>f\<close>
  is replaced by \<open>sign(f) * |f * (k1 + 1) / (k1 * normFactor + f)|\<close>. The quotient of the
  second formula is \<open>spec_ratio\<close>.
\<close>

definition spec_normFactor :: "real \<Rightarrow> real \<Rightarrow> real \<Rightarrow> number" where
  "spec_normFactor b docLength avgLength =
     Finite (1 - b) + Finite b * (Finite docLength / Finite avgLength)"

definition spec_ratio :: "real \<Rightarrow> number \<Rightarrow> number \<Rightarrow> number" where
  "spec_ratio k1 normFactor f = f * Finite (k1 + 1) / (Finite k1 * normFactor + f)"

definition spec_frequency :: "real \<Rightarrow> number \<Rightarrow> number \<Rightarrow> number" where
  "spec_frequency k1 normFactor f = sgn f * \<bar>spec_ratio k1 normFactor f\<bar>"

text \<open>
  \<open>idf[term] = ln((totalDocs - documentFrequency(term)) / totalDocs + k)\<close>, where the
  document frequency is the length of what the index holds for the term.
\<close>

definition spec_idf :: "nat \<Rightarrow> real \<Rightarrow> posting \<Rightarrow> number" where
  "spec_idf n k p = Math_log ((real n - real (posting_length p)) / real n + k)"

text \<open>
  The documents of a log that contain a term, in the order of the log: what section 3 says
  the inverted index maps the term to.
\<close>

definition docs_containing :: "(string \<times> string list) list \<Rightarrow> string \<Rightarrow> string list" where
  "docs_containing h t = map fst (filter (\<lambda>(did, tks). t \<in> set tks) h)"

text \<open>
  The documents of a store whose frequency map has a term, in the order of the store.
\<close>

definition containing :: "(string \<times> document) list \<Rightarrow> string \<Rightarrow> string list" where
  "containing docs t =
     filter (\<lambda>did. case map_of docs did of
                      None \<Rightarrow> False
                    | Some d \<Rightarrow> t \<in> set (map fst (freq d)))
       (map fst docs)"

text \<open>
  \<open>listed ix p\<close>: the index \<open>ix\<close> maps each term \<open>t\<close> to the list \<open>p t\<close>, and has no entry
  where that list is empty. While \<open>addDoc\<close> works on the document \<open>did\<close>, the lists are those
  of the documents \<open>ds\<close> added before, followed by \<open>did\<close> for the terms that already have a
  frequency \<open>fr\<close> in it.
\<close>

definition listed :: "(string \<times> posting) list \<Rightarrow> (string \<Rightarrow> string list) \<Rightarrow> bool" where
  "listed ix p = (\<forall>t. map_of ix t = (if p t = [] then None else Some (Ids (p t))))"

definition postings ::
  "(string \<times> document) list \<Rightarrow> string \<Rightarrow> (string \<times> number) list \<Rightarrow> string \<Rightarrow> string list" where
  "postings ds did fr t = containing ds t @ (if t \<in> set (map fst fr) then [did] else [])"

text \<open>
  The store holds the documents of the log, in its order, and the frequency map of each has
  exactly the tokens that the log has for it.
\<close>

definition stores :: "(string \<times> document) list \<Rightarrow> (string \<times> string list) list \<Rightarrow> bool" where
  "stores docs h =
     list_all2 (\<lambda>(did, d) (did', tks). did' = did \<and> set (map fst (freq d)) = set tks) docs h"

definition index_lists_documents :: "(string \<times> string list) list \<Rightarrow> state \<Rightarrow> bool" where
  "index_lists_documents h s =
     (\<not> fromJSON s \<and> \<not> consolidated s \<and> distinct (map fst (documents s)) \<and>
      stores (documents s) h \<and> listed (invertedIdx s) (containing (documents s)))"


definition consolidatedFrequency :: "state \<Rightarrow> string \<Rightarrow> string \<Rightarrow> number" where
  "consolidatedFrequency s did t =
     (case map_of (documents s) did of None \<Rightarrow> NaN | Some d \<Rightarrow> operand (freq d) t)"

definition idf_of :: "state \<Rightarrow> string \<Rightarrow> number" where
  "idf_of s t = operand (idf s) t"



text \<open>
  The inverted index agrees with the document store and the idf table on the tokens of a
  query: what the index has for a token is an array of ids and the token's own property, it
  names each document once, each of them is in the store with a finite frequency for the
  token, and the token has a finite idf.
\<close>

definition posting_ok :: "state \<Rightarrow> string \<Rightarrow> bool" where
  "posting_ok s t =
     (case get_prop (fromJSON s) (invertedIdx s) t of
        Undefined \<Rightarrow> True
      | Own (Ids ids) \<Rightarrow>
          distinct ids \<and> is_Finite (idf_of s t) \<and>
          list_all (\<lambda>did. case get_prop (fromJSON s) (documents s) did of
                            Own d \<Rightarrow> is_Finite (operand (freq d) t)
                          | _ \<Rightarrow> False) ids
      | _ \<Rightarrow> False)"

definition index_agrees :: "state \<Rightarrow> string list \<Rightarrow> bool" where
  "index_agrees s tkns = list_all (posting_ok s) tkns"

text \<open>All the frequencies and idf values that a state stores are finite.\<close>

definition finite_values :: "state \<Rightarrow> bool" where
  "finite_values s =
     (list_all (\<lambda>(did, d). list_all (\<lambda>(t, f). is_Finite f) (freq d)) (documents s) \<and>
      list_all (\<lambda>(t, i). is_Finite i) (idf s))"

text \<open>
  For the comparison of an instance with its re-imported snapshot: keys that are not names
  of \<^verbatim>\<open>Object.prototype\<close>; two states with the same pipelines, configuration, documents, index
  and totals (they may differ in \<open>learned\<close>, in the idf table and in what kind of object
  holds the documents and the index); and a document all of whose tokens, as the pipelines
  of a state yield them, are such keys.
\<close>

definition own_names :: "string list \<Rightarrow> bool" where
  "own_names ks = list_all (\<lambda>k. map_of object_prototype k = None) ks"

definition same_learning :: "state \<Rightarrow> state \<Rightarrow> bool" where
  "same_learning a b =
     (pTasks b = pTasks a \<and> pTaskCount b = pTaskCount a \<and> flds b = flds a \<and>
      documents b = documents a \<and> invertedIdx b = invertedIdx a \<and>
      consolidated b = consolidated a \<and> totalDocs b = totalDocs a \<and>
      totalCorpusLength b = totalCorpusLength a \<and> config b = config a)"

definition own_tokens :: "state \<Rightarrow> (string \<Rightarrow> string option) \<Rightarrow> bool" where
  "own_tokens s doc =
     (\<forall>field str v. doc field = Some str \<longrightarrow> prepareInput s (Text str) field = Inr v
        \<longrightarrow> own_names (tokens v))"

text \<open>
  The snapshot gives back the documents and the index of a state whose frequencies are
  finite and whose index holds arrays only.
\<close>

definition plain :: "state \<Rightarrow> bool" where
  "plain s =
     (list_all (\<lambda>(did, d). list_all (\<lambda>(t, f). is_Finite f) (freq d)) (documents s) \<and>
      list_all (\<lambda>(t, p). case p of Ids ids \<Rightarrow> True | Function a \<Rightarrow> False) (invertedIdx s))"

subsection \<open>Example instances\<close>

text \<open>
  No pipeline is defined in the first examples, so the tokens of a text are its characters.
  Field weights: title 2, body 1; default BM25 parameters.
\<close>

definition ex_cfg :: cfg where
  "ex_cfg = \<lparr>cfg_fldWeights = Some [(''title'', Some 2), (''body'', Some 1)],
             cfg_bm25Params = None\<rparr>"

definition ex_doc1 :: "string \<Rightarrow> string option" where
  "ex_doc1 = map_of [(''title'', ''ab''), (''body'', ''a'')]"

definition ex_doc2 :: "string \<Rightarrow> string option" where
  "ex_doc2 = map_of [(''title'', ''c''), (''body'', ''ca'')]"

definition ex_doc3 :: "string \<Rightarrow> string option" where
  "ex_doc3 = map_of [(''title'', ''d''), (''body'', ''dd'')]"

text \<open>A document without the configured field \<open>body\<close>.\<close>

definition ex_doc_no_body :: "string \<Rightarrow> string option" where
  "ex_doc_no_body = map_of [(''title'', ''xy'')]"

definition ex_configured :: state where
  "ex_configured = snd (defineConfig (Some ex_cfg) init)"

definition ex_learned :: state where
  "ex_learned =
     snd (addDoc ex_doc3 ''d3'' (snd (addDoc ex_doc2 ''d2'' (snd (addDoc ex_doc1 ''d1'' ex_configured)))))"

definition ex_consolidated :: state where
  "ex_consolidated = snd (consolidate ex_learned)"

text \<open>
  Field weights that cancel, title 1 and body -1, with \<open>k1 = 0\<close>, all within the ranges that
  the specification documents, and the three documents: the token \<open>a\<close> of the first one is in
  both fields.
\<close>

definition ex_cancel_cfg :: cfg where
  "ex_cancel_cfg =
     \<lparr>cfg_fldWeights = Some [(''title'', Some 1), (''body'', Some (- 1))],
      cfg_bm25Params = Some \<lparr>cfg_k1 = Some 0, cfg_b = None, cfg_k = None\<rparr>\<rparr>"

definition ex_cancel :: state where
  "ex_cancel =
     snd (addDoc ex_doc3 ''d3'' (snd (addDoc ex_doc2 ''d2'' (snd (addDoc ex_doc1 ''d1''
       (snd (defineConfig (Some ex_cancel_cfg) init)))))))"

text \<open>
  The same weights with \<open>k1 = 1\<close> and \<open>b = 0\<close>: for the frequency -1 the divisor
  \<open>k1 * normFactor + f\<close> is zero.
\<close>

definition ex_zero_divisor_cfg :: cfg where
  "ex_zero_divisor_cfg =
     \<lparr>cfg_fldWeights = Some [(''title'', Some 1), (''body'', Some (- 1))],
      cfg_bm25Params = Some \<lparr>cfg_k1 = Some 1, cfg_b = Some 0, cfg_k = None\<rparr>\<rparr>"

definition ex_zero_divisor :: state where
  "ex_zero_divisor =
     snd (addDoc ex_doc3 ''d3'' (snd (addDoc ex_doc2 ''d2'' (snd (addDoc ex_doc1 ''d1''
       (snd (defineConfig (Some ex_zero_divisor_cfg) init)))))))"



text \<open>
  The three documents, and four more that lack the field \<open>body\<close>: their \<open>addDoc\<close> throws
  after it has indexed the title, so that the token \<open>a\<close> is listed for six documents of
  which three are counted.
\<close>

definition ex_doc_a :: "string \<Rightarrow> string option" where
  "ex_doc_a = map_of [(''title'', ''a'')]"

definition ex_uncounted :: state where
  "ex_uncounted =
     snd (addDoc ex_doc_a ''d7'' (snd (addDoc ex_doc_a ''d6'' (snd (addDoc ex_doc_a ''d5''
       (snd (addDoc ex_doc_a ''d4'' ex_learned)))))))"

text \<open>A task that splits its input into characters, as a caller may supply it.\<close>

definition split_chars :: task where
  "split_chars v = Tokens (tokens v)"

text \<open>
  A default pipeline of one task, and an empty pipeline of its own for the field \<open>title\<close>
  or for the queries (\<open>search\<close>).
\<close>

definition ex_empty_pipeline :: "string \<Rightarrow> state" where
  "ex_empty_pipeline field =
     snd (definePrepTasks (Some []) (Field field)
       (snd (definePrepTasks (Some [Some split_chars]) NoField init)))"




text \<open>
  A task that makes one token of the whole text, and an instance that has it as its default
  pipeline, is configured, and has been exported and imported again.
\<close>

definition one_token :: task where
  "one_token v = (case v of Text str \<Rightarrow> Tokens [str] | Tokens ts \<Rightarrow> Tokens ts)"

definition ex_reimported :: state where
  "ex_reimported =
     (let s = snd (defineConfig (Some ex_cfg)
                (snd (definePrepTasks (Some [Some one_token]) NoField init)))
      in snd (importJSON (exportJSON s) s))"

text \<open>
  Three documents added under that pipeline, the instance exported and imported again, and
  then a document with the token \<open>constructor\<close>, on which \<open>addDoc\<close> throws.
\<close>

definition ex_function :: state where
  "ex_function =
     (let s = snd (addDoc ex_doc3 ''d3'' (snd (addDoc ex_doc2 ''d2'' (snd (addDoc ex_doc1 ''d1''
                (snd (defineConfig (Some ex_cfg)
                  (snd (definePrepTasks (Some [Some one_token]) NoField init)))))))))
      in snd (addDoc (map_of [(''title'', ''constructor''), (''body'', ''x'')]) ''d4''
                (snd (importJSON (exportJSON s) s))))"

section \<open>Properties\<close>

subsection \<open>Which errors a loop can end with\<close>

lemma run_tasks_error: "run_tasks pt i n x = Inl e \<Longrightarrow> e = TypeError"
  by (induction pt i n x rule: run_tasks.induct) (auto split: if_splits)

lemma prepareInput_error: "prepareInput s x field = Inl e \<Longrightarrow> e = TypeError"
  unfolding prepareInput_def Let_def by (rule run_tasks_error)






subsection \<open>The example instances, evaluated\<close>

lemma ex_configured_eq:
  "ex_configured =
     init\<lparr>config := Some \<lparr>fldWeights = [(''title'', 2), (''body'', 1)],
                            bm25Params = \<lparr>param_k1 = 6 / 5, param_b = 3 / 4, param_k = 1\<rparr>\<rparr>\<rparr>"
  by (simp add: ex_configured_def ex_cfg_def init_def defineConfig_def default_bm25Params_def)

lemma ex_learned_eq:
  "ex_learned =
     ex_configured
       \<lparr>documents :=
          [(''d1'', \<lparr>freq = [(''a'', Finite 3), (''b'', Finite 2)], length_doc = 5\<rparr>),
           (''d2'', \<lparr>freq = [(''c'', Finite 3), (''a'', Finite 1)], length_doc = 4\<rparr>),
           (''d3'', \<lparr>freq = [(''d'', Finite 4)], length_doc = 4\<rparr>)],
        invertedIdx :=
          [(''a'', Ids [''d1'', ''d2'']), (''b'', Ids [''d1'']), (''c'', Ids [''d2'']),
           (''d'', Ids [''d3''])],
        learned := True, totalDocs := 3, totalCorpusLength := 13\<rparr>"
  by (simp add: ex_learned_def ex_configured_eq ex_doc1_def ex_doc2_def ex_doc3_def init_def
      addDoc_def get_prop_def updateFreq_def prepareInput_def)

lemma ex_consolidated_eq:
  "ex_consolidated =
     ex_learned
       \<lparr>documents :=
          [(''d1'', \<lparr>freq = [(''a'', Finite (143 / 94)), (''b'', Finite (286 / 217))],
                     length_doc = 5\<rparr>),
           (''d2'', \<lparr>freq = [(''c'', Finite (286 / 179)), (''a'', Finite (286 / 277))],
                     length_doc = 4\<rparr>),
           (''d3'', \<lparr>freq = [(''d'', Finite (1144 / 667))], length_doc = 4\<rparr>)],
        idf := [(''a'', Finite (ln (4 / 3))), (''b'', Finite (ln (5 / 3))),
                (''c'', Finite (ln (5 / 3))), (''d'', Finite (ln (5 / 3)))],
        consolidated := True, avgCorpusLength := 13 / 3\<rparr>"
  by (simp add: ex_consolidated_def ex_learned_eq ex_configured_eq init_def consolidate_def
      Math_log_def)



lemma ex_cancel_eq:
  "ex_cancel =
     init\<lparr>documents :=
            [(''d1'', \<lparr>freq = [(''a'', Finite 0), (''b'', Finite 1)], length_doc = 3\<rparr>),
             (''d2'', \<lparr>freq = [(''c'', Finite 0), (''a'', Finite (- 1))], length_doc = 3\<rparr>),
             (''d3'', \<lparr>freq = [(''d'', Finite (- 1))], length_doc = 3\<rparr>)],
          invertedIdx :=
            [(''a'', Ids [''d1'', ''d2'']), (''b'', Ids [''d1'']), (''c'', Ids [''d2'']),
             (''d'', Ids [''d3''])],
          learned := True, totalDocs := 3, totalCorpusLength := 9,
          config := Some \<lparr>fldWeights = [(''title'', 1), (''body'', - 1)],
                           bm25Params = \<lparr>param_k1 = 0, param_b = 3 / 4, param_k = 1\<rparr>\<rparr>\<rparr>"
  by (simp add: ex_cancel_def ex_cancel_cfg_def ex_doc1_def ex_doc2_def ex_doc3_def init_def
      defineConfig_def addDoc_def get_prop_def updateFreq_def prepareInput_def)


lemma ex_zero_divisor_eq:
  "ex_zero_divisor =
     ex_cancel\<lparr>config := Some \<lparr>fldWeights = [(''title'', 1), (''body'', - 1)],
                   bm25Params = \<lparr>param_k1 = 1, param_b = 0, param_k = 1\<rparr>\<rparr>\<rparr>"
  by (simp add: ex_zero_divisor_def ex_zero_divisor_cfg_def ex_cancel_eq
      ex_doc1_def ex_doc2_def ex_doc3_def init_def defineConfig_def
      addDoc_def get_prop_def updateFreq_def prepareInput_def)


lemma ex_uncounted_eq:
  "ex_uncounted =
     ex_learned
       \<lparr>documents :=
          [(''d1'', \<lparr>freq = [(''a'', Finite 3), (''b'', Finite 2)], length_doc = 5\<rparr>),
           (''d2'', \<lparr>freq = [(''c'', Finite 3), (''a'', Finite 1)], length_doc = 4\<rparr>),
           (''d3'', \<lparr>freq = [(''d'', Finite 4)], length_doc = 4\<rparr>),
           (''d4'', \<lparr>freq = [(''a'', Finite 2)], length_doc = 2\<rparr>),
           (''d5'', \<lparr>freq = [(''a'', Finite 2)], length_doc = 2\<rparr>),
           (''d6'', \<lparr>freq = [(''a'', Finite 2)], length_doc = 2\<rparr>),
           (''d7'', \<lparr>freq = [(''a'', Finite 2)], length_doc = 2\<rparr>)],
        invertedIdx :=
          [(''a'', Ids [''d1'', ''d2'', ''d4'', ''d5'', ''d6'', ''d7'']), (''b'', Ids [''d1'']),
           (''c'', Ids [''d2'']), (''d'', Ids [''d3''])],
        totalCorpusLength := 21\<rparr>"
  by (simp add: ex_uncounted_def ex_doc_a_def ex_learned_eq ex_configured_eq init_def
      addDoc_def get_prop_def updateFreq_def prepareInput_def)

subsection \<open>Import of a snapshot\<close>




subsection \<open>What addDoc leaves unchanged\<close>

lemma freq_loop_distinct:
  "freq_loop inh did w ts fr ix = (e, fr', ix') \<Longrightarrow> distinct (map fst ix)
     \<Longrightarrow> distinct (map fst ix')"
  by (induction inh did w ts fr ix rule: freq_loop.induct)
    (auto split: option.splits property.splits posting.splits simp: distinct_update)

lemma updateFreq_frame:
  "updateFreq did txt w fr field s = (r, fr', s') \<Longrightarrow>
     \<exists>ix. s' = s\<lparr>invertedIdx := ix\<rparr> \<and> (distinct (map fst (invertedIdx s)) \<longrightarrow> distinct (map fst ix))"
  by (auto simp: updateFreq_def split: sum.splits prod.splits option.splits
      dest: freq_loop_distinct intro: exI[of _ "invertedIdx s"])

lemma field_loop_frame:
  "field_loop did doc fws d s = (e, s') \<Longrightarrow>
     \<exists>docs ix tcl. s' = s\<lparr>documents := docs, invertedIdx := ix, totalCorpusLength := tcl\<rparr> \<and>
        (distinct (map fst (invertedIdx s)) \<longrightarrow> distinct (map fst ix)) \<and>
        (documents s \<noteq> [] \<longrightarrow> docs \<noteq> [])"
proof (induction did doc fws d s rule: field_loop.induct)
  case (1 did doc d s)
  then show ?case
    by (auto intro!: exI[of _ "documents s"] exI[of _ "invertedIdx s"] exI[of _ "totalCorpusLength s"])
next
  case (2 did doc field weight fws d s)
  show ?case
  proof (cases "doc field")
    case None
    with 2 show ?thesis 
      by (auto intro!: exI[of _ "documents s"] exI[of _ "invertedIdx s"] exI[of _ "totalCorpusLength s"])
  next
    case (Some str)
    obtain r fr' s1 where u: "updateFreq did (Text str) weight (freq d) field s = (r, fr', s1)"
      by (metis prod_cases3)
    from updateFreq_frame[OF u] obtain ix1 where s1: "s1 = s\<lparr>invertedIdx := ix1\<rparr>"
      and d1: "distinct (map fst (invertedIdx s)) \<longrightarrow> distinct (map fst ix1)" by blast
    show ?thesis
    proof (cases r)
      case (Inl err)
      with 2(2) Some u s1 d1 show ?thesis
        by (auto intro!: exI[of _ "AList.update did (d\<lparr>freq := fr'\<rparr>) (documents s)"] exI[of _ ix1] exI[of _ "totalCorpusLength s"])
    next
      case (Inr len)
      from 2(1)[OF Some u[symmetric] _ refl refl, of len] 2(2) Some u Inr
      obtain docs ix tcl where "s' = s1\<lparr>documents := AList.update did (d\<lparr>freq := fr', length_doc := length_doc d + len\<rparr>) (documents s1),
                         totalCorpusLength := totalCorpusLength s1 + len\<rparr>\<lparr>documents := docs, invertedIdx := ix, totalCorpusLength := tcl\<rparr>"
        and "distinct (map fst (invertedIdx s1)) \<longrightarrow> distinct (map fst ix)" and "docs \<noteq> []"
        by (auto simp: Let_def)
      with s1 d1 show ?thesis
        by (auto intro!: exI[of _ docs] exI[of _ ix] exI[of _ tcl])
    qed
  qed
qed

subsection \<open>The four ways through addDoc\<close>

lemma addDoc_no_config: "config s = None \<Longrightarrow> addDoc doc did s = (Inl InvalidState, s)"
  by (simp add: addDoc_def)

lemma addDoc_consolidated: "consolidated s \<Longrightarrow> addDoc doc did s = (Inl InvalidState, s)"
  by (simp add: addDoc_def split: option.splits)

lemma addDoc_duplicate:
  "config s = Some c \<Longrightarrow> \<not> consolidated s \<Longrightarrow>
   get_prop (fromJSON s) (documents s) did \<noteq> Undefined \<Longrightarrow>
   addDoc doc did s = (Inl DuplicateId, s\<lparr>learned := True\<rparr>)"
  by (cases "get_prop (fromJSON s) (documents s) did") (simp_all add: addDoc_def)

lemma addDoc_new:
  "config s = Some c \<Longrightarrow> \<not> consolidated s \<Longrightarrow>
   get_prop (fromJSON s) (documents s) did = Undefined \<Longrightarrow>
   addDoc doc did s =
     (case field_loop did doc (fldWeights c) \<lparr>freq = [], length_doc = 0\<rparr>
             (s\<lparr>learned := True,
                documents := AList.update did \<lparr>freq = [], length_doc = 0\<rparr> (documents s)\<rparr>) of
        (Some e, s3) \<Rightarrow> (Inl e, s3)
      | (None, s3) \<Rightarrow> (Inr (totalDocs s3 + 1), s3\<lparr>totalDocs := totalDocs s3 + 1\<rparr>))"
  by (simp add: addDoc_def Let_def)

lemma addDoc_invariant: "invariant s \<Longrightarrow> invariant (snd (addDoc doc did s))"
proof -
  assume inv: "invariant s"
  show ?thesis
  proof (cases "config s")
    case None
    with inv show ?thesis by (simp add: addDoc_no_config)
  next
    case (Some c)
    show ?thesis
    proof (cases "consolidated s")
      case True
      with inv show ?thesis by (simp add: addDoc_consolidated)
    next
      case False
      show ?thesis
      proof (cases "get_prop (fromJSON s) (documents s) did = Undefined")
        case dup: False
        from inv show ?thesis
          by (simp add: addDoc_duplicate [OF Some False dup] invariant_def)
      next
        case True
        let ?d = "\<lparr>freq = [], length_doc = 0\<rparr>"
        let ?s2 = "s\<lparr>learned := True, documents := AList.update did ?d (documents s)\<rparr>"
        obtain e s3 where fl: "field_loop did doc (fldWeights c) ?d ?s2 = (e, s3)"
          by (metis surj_pair)
        from field_loop_frame[OF fl] obtain docs ix tcl where
          s3: "s3 = ?s2\<lparr>documents := docs, invertedIdx := ix, totalCorpusLength := tcl\<rparr>"
          and dx: "distinct (map fst (invertedIdx ?s2)) \<longrightarrow> distinct (map fst ix)" by blast
        from inv False have "idf s = []" by (simp add: invariant_def)
        with inv Some False fl s3 dx show ?thesis
          by (cases e) (auto simp: addDoc_new [OF Some False True] invariant_def)
      qed
    qed
  qed
qed

text \<open>The errors that \<open>addDoc\<close> can end with.\<close>

lemma freq_loop_error:
  "freq_loop inh did w ts fr ix = (Some e, fr', ix') \<Longrightarrow> e = TypeError"
  by (induction inh did w ts fr ix rule: freq_loop.induct)
    (auto split: option.splits property.splits posting.splits)

lemma updateFreq_error:
  "updateFreq did tx w fr field s = (Inl e, fr', s') \<Longrightarrow> e = TypeError"
  by (auto simp: updateFreq_def split: sum.splits prod.splits option.splits
      dest: prepareInput_error freq_loop_error)

lemma field_loop_error:
  "field_loop did doc fws d s = (Some e, s') \<Longrightarrow> e = MissingField \<or> e = TypeError"
proof (induction did doc fws d s rule: field_loop.induct)
  case (1 did doc d s)
  then show ?case by simp
next
  case (2 did doc field weight fws d s)
  show ?case
  proof (cases "doc field")
    case None
    with "2.prems" show ?thesis by simp
  next
    case (Some str)
    obtain r fr1 s1 where u: "updateFreq did (Text str) weight (freq d) field s = (r, fr1, s1)"
      by (metis prod_cases3)
    show ?thesis
    proof (cases r)
      case (Inl err)
      with "2.prems" Some u updateFreq_error [of did "Text str" weight "freq d" field s err fr1 s1]
      show ?thesis by simp
    next
      case (Inr len)
      with "2.prems" Some u "2.IH" [OF Some u [symmetric] Inr refl refl]
      show ?thesis by (simp add: Let_def)
    qed
  qed
qed

lemma addDoc_error:
  assumes "fst (addDoc doc did s) = Inl e"
  shows "e = InvalidState \<or> e = DuplicateId \<or> e = MissingField \<or> e = TypeError"
proof (cases "config s")
  case None
  with assms show ?thesis by (simp add: addDoc_no_config)
next
  case (Some c)
  show ?thesis
  proof (cases "consolidated s")
    case True
    with assms show ?thesis by (simp add: addDoc_consolidated)
  next
    case False
    show ?thesis
    proof (cases "get_prop (fromJSON s) (documents s) did = Undefined")
      case dup: False
      with assms show ?thesis by (simp add: addDoc_duplicate [OF Some False dup])
    next
      case True
      obtain r s3 where fl: "field_loop did doc (fldWeights c) \<lparr>freq = [], length_doc = 0\<rparr>
             (s\<lparr>learned := True,
                documents := AList.update did \<lparr>freq = [], length_doc = 0\<rparr> (documents s)\<rparr>)
             = (r, s3)"
        by (metis surj_pair)
      with assms field_loop_error [of did doc "fldWeights c" _ _ e s3] show ?thesis
        by (cases r) (auto simp: addDoc_new [OF Some False True])
    qed
  qed
qed

subsection \<open>The invariant of the reachable states\<close>

lemma fst_comp_values: "fst \<circ> (\<lambda>(k, v). (k, g v)) = fst"
  by (auto simp: fun_eq_iff)

lemma map_fst_map_values: "map fst (map (\<lambda>(k, v). (k, g v)) xs) = map fst xs"
  by (simp add: fst_comp_values)

lemma fold_idf_keys:
  "fst ` set (fold (\<lambda>(t, p). AList.update t (g p)) ix m) = fst ` set m \<union> fst ` set ix"
  by (induction ix arbitrary: m) (auto simp: dom_update split: prod.splits)

lemma consolidate_invariant: "invariant s \<Longrightarrow> invariant (snd (consolidate s))"
  by (auto simp: consolidate_def invariant_def Let_def fold_idf_keys split: option.splits)

lemma defineConfig_invariant: "invariant s \<Longrightarrow> invariant (snd (defineConfig arg s))"
  by (auto simp: defineConfig_def invariant_def Let_def split: option.splits prod.splits)

lemma definePrepTasks_invariant: "invariant s \<Longrightarrow> invariant (snd (definePrepTasks tasks field s))"
  by (auto simp: definePrepTasks_def invariant_def split: option.splits field_arg.splits)

lemma reset_invariant: "invariant (snd (reset s))"
  by (simp add: reset_def invariant_def)

lemma importJSON_invariant:
  "invariant s \<Longrightarrow> is_objects j \<Longrightarrow> invariant (snd (importJSON j s))"
  by (auto simp: importJSON_def invariant_def reset_def fst_comp_values
      split: json.splits element.splits)

lemma reachable_invariant: "reachable s \<Longrightarrow> invariant s"
proof (induction rule: reachable.induct)
  case reachable_init
  show ?case by (simp add: invariant_def init_def)
qed (simp_all add: addDoc_invariant consolidate_invariant defineConfig_invariant
    definePrepTasks_invariant reset_invariant importJSON_invariant)

lemma ex_configured_reachable: "reachable ex_configured"
  unfolding ex_configured_def by (intro reachable.intros)

lemma ex_learned_reachable: "reachable ex_learned"
  unfolding ex_learned_def by (intro reachable.intros ex_configured_reachable)

text \<open>
  A call of \<open>addDoc\<close> that fails with DuplicateId on a reachable state changes nothing:
  \<open>learned\<close>, which it sets before it looks for the id, is set already.
\<close>

lemma addDoc_duplicate_unchanged:
  assumes "reachable s" and "fst (addDoc doc did s) = Inl DuplicateId"
  shows "snd (addDoc doc did s) = s"
proof (cases "config s")
  case None
  with assms show ?thesis by (simp add: addDoc_no_config)
next
  case (Some c)
  show ?thesis
  proof (cases "consolidated s")
    case True
    with assms show ?thesis by (simp add: addDoc_consolidated)
  next
    case False
    show ?thesis
    proof (cases "get_prop (fromJSON s) (documents s) did = Undefined")
      case dup: False
      then have "documents s \<noteq> [] \<or> fromJSON s"
        by (auto simp: get_prop_def split: option.splits if_splits)
      with reachable_invariant [OF assms(1)] have "learned s"
        by (simp add: invariant_def)
      then show ?thesis
        by (simp add: addDoc_duplicate [OF Some False dup])
    next
      case True
      obtain r s3 where fl: "field_loop did doc (fldWeights c) \<lparr>freq = [], length_doc = 0\<rparr>
             (s\<lparr>learned := True,
                documents := AList.update did \<lparr>freq = [], length_doc = 0\<rparr> (documents s)\<rparr>)
             = (r, s3)"
        by (metis surj_pair)
      with assms(2) field_loop_error [of did doc "fldWeights c" _ _ DuplicateId s3]
      show ?thesis
        by (cases r) (auto simp: addDoc_new [OF Some False True])
    qed
  qed
qed

subsection \<open>Consolidation\<close>

lemma consolidate_few: "totalDocs s < 3 \<Longrightarrow> consolidate s = (Inl InsufficientData, s)"
  by (simp add: consolidate_def)

lemma consolidate_success:
  "3 \<le> totalDocs s \<Longrightarrow> config s = Some c \<Longrightarrow>
   consolidate s =
     (Inr True,
      s\<lparr>avgCorpusLength := totalCorpusLength s / real (totalDocs s),
        documents :=
          map (\<lambda>(did, d).
                 (did, d\<lparr>freq := map (\<lambda>(t, f).
                    (t, spec_frequency (param_k1 (bm25Params c))
                          (spec_normFactor (param_b (bm25Params c)) (length_doc d)
                             (totalCorpusLength s / real (totalDocs s))) f))
                    (freq d)\<rparr>))
            (documents s),
        idf := fold (\<lambda>(t, p). AList.update t
                       (spec_idf (totalDocs s) (param_k (bm25Params c)) p))
                 (invertedIdx s) (idf s),
        consolidated := True\<rparr>)"
  unfolding consolidate_def Let_def spec_frequency_def spec_ratio_def spec_normFactor_def
    spec_idf_def
  by (simp only: linorder_not_less [symmetric] if_False option.case)

lemma reachable_config: "reachable s \<Longrightarrow> 0 < totalDocs s \<Longrightarrow> \<exists>c. config s = Some c"
  using reachable_invariant [of s] by (cases "config s") (auto simp: invariant_def)

text \<open>
  C6, amended. On every reachable state, \<open>consolidate\<close> fails with InsufficientData exactly
  when fewer than three documents have been added, and then it leaves the state as it was,
  with \<open>consolidated\<close> false. With three documents or more it returns true and leaves
  \<open>consolidated\<close> set, after which every \<open>addDoc\<close> fails with InvalidState and changes
  nothing. It does so at every call: nothing refuses a second one, which returns true as
  well.
\<close>

theorem consolidate_threshold:
  assumes "reachable s"
  shows "(fst (consolidate s) = Inl InsufficientData \<longleftrightarrow> totalDocs s < 3) \<and>
         (totalDocs s < 3 \<longrightarrow> snd (consolidate s) = s \<and> \<not> consolidated s) \<and>
         (3 \<le> totalDocs s \<longrightarrow>
            fst (consolidate s) = Inr True \<and> consolidated (snd (consolidate s)) \<and>
            fst (consolidate (snd (consolidate s))) = Inr True \<and>
            (\<forall>doc did. addDoc doc did (snd (consolidate s))
                         = (Inl InvalidState, snd (consolidate s))))"
proof (cases "totalDocs s < 3")
  case True
  from reachable_invariant [OF assms] True have "\<not> consolidated s"
    by (auto simp: invariant_def)
  with True show ?thesis
    by (simp add: consolidate_few)
next
  case False
  then have three: "3 \<le> totalDocs s" by simp
  with reachable_config [OF assms] obtain c where c: "config s = Some c"
    by auto
  have "addDoc doc did (snd (consolidate s)) = (Inl InvalidState, snd (consolidate s))"
    for doc did
    by (rule addDoc_consolidated) (simp add: consolidate_success [OF three c])
  moreover have "3 \<le> totalDocs (snd (consolidate s))"
    and "config (snd (consolidate s)) = Some c"
    using three c by (simp_all add: consolidate_success [OF three c])
  then have "fst (consolidate (snd (consolidate s))) = Inr True"
    by (simp add: consolidate_success)
  ultimately show ?thesis
    using three by (simp add: consolidate_success [OF three c])
qed

theorem consolidate_threshold_witness:
  "reachable ex_configured \<and> totalDocs ex_configured = 0 \<and>
   consolidate ex_configured = (Inl InsufficientData, ex_configured) \<and>
   reachable ex_learned \<and> totalDocs ex_learned = 3 \<and>
   fst (consolidate ex_learned) = Inr True \<and>
   fst (consolidate (snd (consolidate ex_learned))) = Inr True \<and>
   addDoc ex_doc1 ''d4'' (snd (consolidate ex_learned))
     = (Inl InvalidState, snd (consolidate ex_learned))"
proof -
  have n0: "totalDocs ex_configured = 0"
    by (simp add: ex_configured_eq init_def)
  have n3: "totalDocs ex_learned = 3"
    by (simp add: ex_learned_eq)
  from consolidate_threshold [OF ex_configured_reachable] n0
  have "fst (consolidate ex_configured) = Inl InsufficientData"
    and "snd (consolidate ex_configured) = ex_configured"
    by simp_all
  then have "consolidate ex_configured = (Inl InsufficientData, ex_configured)"
    by (simp add: prod_eq_iff)
  with consolidate_threshold [OF ex_learned_reachable] n0 n3
    ex_configured_reachable ex_learned_reachable
  show ?thesis by simp
qed

text \<open>
  Two calls of \<open>consolidate\<close> in a row both succeed; the second one transforms the
  frequencies that the first one has stored.
\<close>

theorem consolidate_twice:
  "totalDocs ex_learned = 3 \<and>
   fst (consolidate ex_learned) = Inr True \<and>
   fst (consolidate (snd (consolidate ex_learned))) = Inr True \<and>
   consolidatedFrequency (snd (consolidate ex_learned)) ''d3'' ''d'' = Finite (1144 / 667) \<and>
   consolidatedFrequency (snd (consolidate (snd (consolidate ex_learned)))) ''d3'' ''d''
     = Finite (327184 / 246769)"
  by (simp add: ex_learned_eq ex_configured_eq init_def consolidate_def
      consolidatedFrequency_def operand_def)

lemma map_of_map_values:
  "map_of (map (\<lambda>(k, v). (k, g v)) xs) k = map_option g (map_of xs k)"
  by (induction xs) auto

subsection \<open>The sign of a consolidated frequency\<close>









text \<open>
  At a divisor of zero the new frequency is the infinity of the sign of the old one.
\<close>

lemma consolidate_zero_divisor:
  "totalDocs ex_zero_divisor = 3 \<and>
   consolidatedFrequency ex_zero_divisor ''d3'' ''d'' = Finite (- 1) \<and>
   consolidatedFrequency (snd (consolidate ex_zero_divisor)) ''d3'' ''d'' = NegInf"
  by (simp add: ex_zero_divisor_eq ex_cancel_eq init_def consolidate_def
      consolidatedFrequency_def operand_def infinity_def)

lemma fold_idf_map_of:
  "distinct (map fst ix) \<Longrightarrow>
   map_of (fold (\<lambda>(t, p). AList.update t (g p)) ix m) t
     = (case map_of ix t of None \<Rightarrow> map_of m t | Some p \<Rightarrow> Some (g p))"
proof (induction ix arbitrary: m)
  case Nil
  show ?case by simp
next
  case (Cons e ix)
  obtain t0 p0 where e: "e = (t0, p0)" by (cases e)
  from Cons.prems e have notin: "map_of ix t0 = None" and dist: "distinct (map fst ix)"
    by (auto simp: map_of_eq_None_iff)
  show ?case
    using Cons.IH [OF dist, of "AList.update t0 (g p0) m"] notin
    by (auto simp: e update_conv' split: option.splits)
qed

text \<open>
  C2. On every reachable state with at least three documents, after \<open>consolidate\<close> the idf
  table has, for every term of the inverted index, the entry
  \<open>ln((totalDocs - n) / totalDocs + k)\<close> with \<open>n\<close> the length of what the index holds for the
  term, and no entry for any other term. The logarithm is \<^verbatim>\<open>Math.log\<close>: the real logarithm of
  a positive argument (the second part of the statement), minus infinity at zero and NaN
  below. The inverted index itself is unchanged.
\<close>

theorem consolidate_idf:
  assumes "reachable s" and "3 \<le> totalDocs s"
  shows "\<exists>c s'. config s = Some c \<and> consolidate s = (Inr True, s') \<and>
           invertedIdx s' = invertedIdx s \<and>
           (\<forall>t. map_of (idf s') t =
              (case map_of (invertedIdx s) t of
                 None \<Rightarrow> None
               | Some p \<Rightarrow> Some (spec_idf (totalDocs s) (param_k (bm25Params c)) p))) \<and>
           (\<forall>t p. map_of (invertedIdx s) t = Some p \<and>
                   0 < (real (totalDocs s) - real (posting_length p)) / real (totalDocs s)
                         + param_k (bm25Params c) \<longrightarrow>
              map_of (idf s') t =
                Some (Finite (ln ((real (totalDocs s) - real (posting_length p))
                                    / real (totalDocs s) + param_k (bm25Params c)))))"
proof -
  from reachable_config [OF assms(1)] assms(2) obtain c where c: "config s = Some c"
    by auto
  from reachable_invariant [OF assms(1)]
  have dist: "distinct (map fst (invertedIdx s))"
    and sub: "set (map fst (idf s)) \<subseteq> set (map fst (invertedIdx s))"
    by (simp_all add: invariant_def)
  define s' where "s' = snd (consolidate s)"
  have cons: "consolidate s = (Inr True, s')"
    by (simp add: s'_def consolidate_success [OF assms(2) c])
  have ix: "invertedIdx s' = invertedIdx s"
    by (simp add: s'_def consolidate_success [OF assms(2) c])
  have each: "map_of (idf s') t =
          (case map_of (invertedIdx s) t of
             None \<Rightarrow> None
           | Some p \<Rightarrow> Some (spec_idf (totalDocs s) (param_k (bm25Params c)) p))" for t
  proof (cases "map_of (invertedIdx s) t")
    case None
    then have "t \<notin> set (map fst (invertedIdx s))"
      by (simp add: map_of_eq_None_iff)
    with sub have "map_of (idf s) t = None"
      by (auto simp: map_of_eq_None_iff)
    with None show ?thesis
      by (simp add: s'_def consolidate_success [OF assms(2) c] fold_idf_map_of [OF dist])
  next
    case (Some p)
    then show ?thesis
      by (simp add: s'_def consolidate_success [OF assms(2) c] fold_idf_map_of [OF dist])
  qed
  have positive: "map_of (idf s') t =
                Some (Finite (ln ((real (totalDocs s) - real (posting_length p))
                                    / real (totalDocs s) + param_k (bm25Params c))))"
    if "map_of (invertedIdx s) t = Some p \<and>
        0 < (real (totalDocs s) - real (posting_length p)) / real (totalDocs s)
              + param_k (bm25Params c)" for t p
    using that each [of t] by (simp add: spec_idf_def Math_log_def)
  from c cons ix each positive show ?thesis by blast
qed

lemma ex_uncounted_reachable: "reachable ex_uncounted"
  unfolding ex_uncounted_def by (intro reachable.intros ex_learned_reachable)

theorem consolidate_idf_witness:
  "reachable ex_learned \<and> 3 \<le> totalDocs ex_learned \<and>
   map_of (invertedIdx ex_learned) ''a'' = Some (Ids [''d1'', ''d2'']) \<and>
   map_of (idf (snd (consolidate ex_learned))) ''a'' = Some (Finite (ln (4 / 3))) \<and>
   map_of (idf (snd (consolidate ex_learned))) ''z'' = None \<and>
   reachable ex_uncounted \<and> totalDocs ex_uncounted = 3 \<and>
   map_of (invertedIdx ex_uncounted) ''a''
     = Some (Ids [''d1'', ''d2'', ''d4'', ''d5'', ''d6'', ''d7'']) \<and>
   map_of (idf (snd (consolidate ex_uncounted))) ''a'' = Some NegInf"
proof -
  have n3: "3 \<le> totalDocs ex_learned"
    by (simp add: ex_learned_eq)
  have a: "map_of (invertedIdx ex_learned) ''a'' = Some (Ids [''d1'', ''d2''])"
    and z: "map_of (invertedIdx ex_learned) ''z'' = None"
    by (simp_all add: ex_learned_eq)
  from consolidate_idf [OF ex_learned_reachable n3]
  obtain c s' where c: "config ex_learned = Some c"
    and cons: "consolidate ex_learned = (Inr True, s')"
    and each: "\<And>t. map_of (idf s') t =
              (case map_of (invertedIdx ex_learned) t of
                 None \<Rightarrow> None
               | Some p \<Rightarrow> Some (spec_idf (totalDocs ex_learned) (param_k (bm25Params c)) p))"
    by blast
  from c have k: "param_k (bm25Params c) = 1"
    by (auto simp: ex_learned_eq ex_configured_eq init_def)
  have "totalDocs ex_learned = 3"
    by (simp add: ex_learned_eq)
  with each [of "''a''"] each [of "''z''"] a z k cons
  have first: "map_of (idf (snd (consolidate ex_learned))) ''a'' = Some (Finite (ln (4 / 3)))"
    "map_of (idf (snd (consolidate ex_learned))) ''z'' = None"
    by (simp_all add: spec_idf_def Math_log_def)
  have u3: "3 \<le> totalDocs ex_uncounted" and u: "totalDocs ex_uncounted = 3"
    by (simp_all add: ex_uncounted_eq ex_learned_eq)
  have ua: "map_of (invertedIdx ex_uncounted) ''a''
              = Some (Ids [''d1'', ''d2'', ''d4'', ''d5'', ''d6'', ''d7''])"
    by (simp add: ex_uncounted_eq)
  from consolidate_idf [OF ex_uncounted_reachable u3]
  obtain c2 s2 where c2: "config ex_uncounted = Some c2"
    and cons2: "consolidate ex_uncounted = (Inr True, s2)"
    and each2: "\<And>t. map_of (idf s2) t =
              (case map_of (invertedIdx ex_uncounted) t of
                 None \<Rightarrow> None
               | Some p \<Rightarrow> Some (spec_idf (totalDocs ex_uncounted) (param_k (bm25Params c2)) p))"
    by blast
  from c2 have k2: "param_k (bm25Params c2) = 1"
    by (auto simp: ex_uncounted_eq ex_learned_eq ex_configured_eq init_def)
  from each2 [of "''a''"] ua u k2 cons2
  have second: "map_of (idf (snd (consolidate ex_uncounted))) ''a'' = Some NegInf"
    by (simp add: spec_idf_def Math_log_def)
  from ex_learned_reachable n3 a first ex_uncounted_reachable u ua second show ?thesis
    by simp
qed

text \<open>
  A function that \<open>updateFreq\<close> has left in the index is a term of the index like the
  others: its idf is computed from the \<^verbatim>\<open>length\<close> of the function.
\<close>

lemma ex_function_eq:
  "ex_function =
     init\<lparr>pTasks := [one_token], pTaskCount := Some 1,
          documents :=
            [(''d1'', \<lparr>freq = [(''ab'', Finite 2), (''a'', Finite 1)], length_doc = 3\<rparr>),
             (''d2'', \<lparr>freq = [(''c'', Finite 2), (''ca'', Finite 1)], length_doc = 3\<rparr>),
             (''d3'', \<lparr>freq = [(''d'', Finite 2), (''dd'', Finite 1)], length_doc = 3\<rparr>),
             (''d4'', \<lparr>freq = [(''constructor'', Finite 2)], length_doc = 0\<rparr>)],
          invertedIdx :=
            [(''ab'', Ids [''d1'']), (''a'', Ids [''d1'']), (''c'', Ids [''d2'']),
             (''ca'', Ids [''d2'']), (''d'', Ids [''d3'']), (''dd'', Ids [''d3'']),
             (''constructor'', Function 1)],
          fromJSON := True, learned := True, totalDocs := 3, totalCorpusLength := 9,
          config := Some \<lparr>fldWeights = [(''title'', 2), (''body'', 1)],
                           bm25Params = \<lparr>param_k1 = 6 / 5, param_b = 3 / 4, param_k = 1\<rparr>\<rparr>\<rparr>"
  by (simp add: ex_function_def ex_cfg_def ex_doc1_def ex_doc2_def ex_doc3_def init_def
      defineConfig_def definePrepTasks_def addDoc_def get_prop_def updateFreq_def
      prepareInput_def one_token_def default_bm25Params_def importJSON_def exportJSON_def
      reset_def object_prototype_def Let_def List.map_filter_def stringify_document_def
      parse_document_def)

lemma consolidate_idf_function:
  "totalDocs ex_function = 3 \<and>
   map_of (invertedIdx ex_function) ''constructor'' = Some (Function 1) \<and>
   map_of (idf (snd (consolidate ex_function))) ''constructor'' = Some (Finite (ln (5 / 3)))"
  by (simp add: ex_function_eq init_def consolidate_def Math_log_def)

subsection \<open>The inverted index while documents are added\<close>

lemma update_absent: "k \<notin> set (map fst xs) \<Longrightarrow> AList.update k v xs = xs @ [(k, v)]"
  by (induction xs) auto

lemma update_last_entry:
  "k \<notin> set (map fst xs) \<Longrightarrow> AList.update k v (xs @ [(k, w)]) = xs @ [(k, v)]"
  by (induction xs) auto

lemma containing_append:
  assumes "did \<notin> set (map fst ds)"
  shows "containing (ds @ [(did, d)]) t = postings ds did (freq d) t"
proof -
  from assms have "map_of ds did = None"
    by (simp add: map_of_eq_None_iff)
  then have new: "map_of (ds @ [(did, d)]) did = Some d"
    by (simp add: map_add_def)
  have "filter (\<lambda>x. case map_of (ds @ [(did, d)]) x of None \<Rightarrow> False
                     | Some d \<Rightarrow> t \<in> set (map fst (freq d))) (map fst ds)
        = filter (\<lambda>x. case map_of ds x of None \<Rightarrow> False
                     | Some d \<Rightarrow> t \<in> set (map fst (freq d))) (map fst ds)"
    by (rule filter_cong) (auto simp: map_add_def map_of_eq_None_iff split: option.splits)
  with new show ?thesis
    by (simp add: containing_def postings_def)
qed

lemma get_prop_own: "get_prop False obj k = (case map_of obj k of None \<Rightarrow> Undefined | Some v \<Rightarrow> Own v)"
  by (simp add: get_prop_def)

lemma freq_loop_listed:
  "freq_loop False did w ts fr ix = (e, fr', ix') \<Longrightarrow> listed ix (postings ds did fr)
     \<Longrightarrow> e = None \<and> listed ix' (postings ds did fr') \<and>
         set (map fst fr') = set (map fst fr) \<union> set ts"
proof (induction "False" did w ts fr ix rule: freq_loop.induct)
  case (1 did weight fr ix)
  then show ?case by simp
next
  case (2 did weight t ts fr ix)
  show ?case
  proof (cases "map_of fr t")
    case (Some f)
    then have tin: "t \<in> set (map fst fr)"
      by (auto dest: map_of_SomeD intro: rev_image_eqI)
    then have "postings ds did (AList.update t (f + Finite weight) fr) = postings ds did fr"
      by (auto simp: postings_def fun_eq_iff dom_update)
    with 2 Some tin show ?thesis by (auto simp: dom_update)
  next
    case None
    then have notin: "t \<notin> set (map fst fr)"
      by (simp add: map_of_eq_None_iff)
    let ?fr = "AList.update t (Finite weight) fr"
    have p_new: "postings ds did ?fr t = containing ds t @ [did]"
      by (simp add: postings_def dom_update)
    have p_old: "postings ds did ?fr u = postings ds did fr u" if "u \<noteq> t" for u
      using that by (simp add: postings_def dom_update)
    have p_t: "postings ds did fr t = containing ds t"
      using notin by (simp add: postings_def)
    show ?thesis
    proof (cases "map_of ix t")
      case ixNone: None
      with "2.prems"(2) p_t have "containing ds t = []"
        by (auto simp: listed_def split: if_splits)
      with "2.prems"(2) p_new p_old
      have l: "listed (AList.update t (Ids [did]) ix) (postings ds did ?fr)"
        by (auto simp: listed_def update_conv')
      from ixNone have g: "get_prop False ix t = Undefined"
        by (simp add: get_prop_own)
      from "2.prems"(1) None g
      have "freq_loop False did weight ts ?fr (AList.update t (Ids [did]) ix) = (e, fr', ix')"
        by simp
      from "2.hyps"(1) [OF None g this l] show ?thesis
        by (auto simp: dom_update)
    next
      case (Some p)
      with "2.prems"(2) p_t have p: "p = Ids (containing ds t)"
        by (auto simp: listed_def split: if_splits)
      with "2.prems"(2) p_new p_old
      have l: "listed (AList.update t (Ids (containing ds t @ [did])) ix) (postings ds did ?fr)"
        by (auto simp: listed_def update_conv')
      from Some p have g: "get_prop False ix t = Own (Ids (containing ds t))"
        by (simp add: get_prop_own)
      from "2.prems"(1) None g
      have "freq_loop False did weight ts ?fr
              (AList.update t (Ids (containing ds t @ [did])) ix) = (e, fr', ix')"
        by simp
      from "2.hyps"(2) [OF None g refl this l] show ?thesis
        by (auto simp: dom_update)
    qed
  qed
qed

lemma updateFreq_listed:
  assumes "updateFreq did tx w fr field s = (r, fr', s')" and "\<not> fromJSON s"
    and "listed (invertedIdx s) (postings ds did fr)"
  shows "listed (invertedIdx s') (postings ds did fr') \<and>
         (\<exists>ix. s' = s\<lparr>invertedIdx := ix\<rparr>) \<and>
         (case prepareInput s tx field of
            Inl e \<Rightarrow> r = Inl e \<and> fr' = fr
          | Inr v \<Rightarrow> (\<exists>len. r = Inr len) \<and>
                       set (map fst fr') = set (map fst fr) \<union> set (tokens v))"
proof (cases "prepareInput s tx field")
  case (Inl e)
  with assms show ?thesis
    by (auto simp: updateFreq_def intro: exI [of _ "invertedIdx s"])
next
  case (Inr tkns)
  obtain e fr1 ix1 where fl: "freq_loop False did w (tokens tkns) fr (invertedIdx s) = (e, fr1, ix1)"
    by (metis prod_cases3)
  from freq_loop_listed [OF fl assms(3)] have "e = None" "listed ix1 (postings ds did fr1)"
    "set (map fst fr1) = set (map fst fr) \<union> set (tokens tkns)"
    by simp_all
  with assms(1,2) Inr fl show ?thesis
    by (auto simp: updateFreq_def)
qed

lemma prepareInput_pipelines:
  "pTasks s' = pTasks s \<Longrightarrow> pTaskCount s' = pTaskCount s \<Longrightarrow> flds s' = flds s \<Longrightarrow>
   prepareInput s' x field = prepareInput s x field"
  by (auto simp: prepareInput_def split: option.splits)

lemma indexed_tokens_pipelines:
  assumes "pTasks s' = pTasks s" and "pTaskCount s' = pTaskCount s" and "flds s' = flds s"
  shows "indexed_tokens s' doc fws = indexed_tokens s doc fws"
proof (induction fws)
  case Nil
  show ?case by simp
next
  case (Cons p fws)
  obtain field weight where p: "p = (field, weight)" by (cases p)
  have "prepareInput s' x field = prepareInput s x field" for x
    by (rule prepareInput_pipelines) (fact assms)+
  with Cons show ?case
    by (simp add: p split: option.splits sum.splits)
qed

lemma field_loop_listed:
  "field_loop did doc fws d s = (e, s') \<Longrightarrow> documents s = ds @ [(did, d)] \<Longrightarrow>
   did \<notin> set (map fst ds) \<Longrightarrow> \<not> fromJSON s \<Longrightarrow>
   listed (invertedIdx s) (postings ds did (freq d)) \<Longrightarrow>
   \<exists>d'. documents s' = ds @ [(did, d')] \<and> listed (invertedIdx s') (postings ds did (freq d'))
        \<and> \<not> fromJSON s' \<and> consolidated s' = consolidated s
        \<and> set (map fst (freq d')) = set (map fst (freq d)) \<union> set (indexed_tokens s doc fws)"
proof (induction did doc fws d s rule: field_loop.induct)
  case (1 did doc d s)
  then show ?case by auto
next
  case (2 did doc field weight fws d s)
  show ?case
  proof (cases "doc field")
    case None
    with 2 show ?thesis by auto
  next
    case (Some str)
    obtain r fr1 s1 where u: "updateFreq did (Text str) weight (freq d) field s = (r, fr1, s1)"
      by (metis prod_cases3)
    from updateFreq_listed [OF u "2.prems"(4,5)]
    obtain ix1 where l1: "listed (invertedIdx s1) (postings ds did fr1)"
      and s1: "s1 = s\<lparr>invertedIdx := ix1\<rparr>"
      and pre: "case prepareInput s (Text str) field of
                  Inl e \<Rightarrow> r = Inl e \<and> fr1 = freq d
                | Inr v \<Rightarrow> (\<exists>len. r = Inr len) \<and>
                            set (map fst fr1) = set (map fst (freq d)) \<union> set (tokens v)"
      by blast
    show ?thesis
    proof (cases r)
      case (Inl err)
      with pre have "fr1 = freq d" and "\<exists>e. prepareInput s (Text str) field = Inl e"
        by (auto split: sum.splits)
      with "2.prems" Some u l1 s1 Inl show ?thesis
        by (auto simp: update_last_entry)
    next
      case (Inr len)
      with pre obtain v where v: "prepareInput s (Text str) field = Inr v"
        and k1: "set (map fst fr1) = set (map fst (freq d)) \<union> set (tokens v)"
        by (auto split: sum.splits)
      let ?d = "d\<lparr>freq := fr1, length_doc := length_doc d + len\<rparr>"
      let ?s = "s1\<lparr>documents := AList.update did ?d (documents s1),
                    totalCorpusLength := totalCorpusLength s1 + len\<rparr>"
      have docs: "documents ?s = ds @ [(did, ?d)]"
        using "2.prems"(2,3) s1 by (simp add: update_last_entry)
      from "2.prems"(1) Some u Inr have fl: "field_loop did doc fws ?d ?s = (e, s')"
        by (simp add: Let_def)
      have j: "\<not> fromJSON ?s" and l: "listed (invertedIdx ?s) (postings ds did (freq ?d))"
        using "2.prems"(4) l1 s1 by simp_all
      have tk: "indexed_tokens ?s doc fws = indexed_tokens s doc fws"
        by (rule indexed_tokens_pipelines) (simp_all add: s1)
      from "2.IH" [OF Some u [symmetric] Inr refl refl fl docs "2.prems"(3) j l]
      obtain d' where "documents s' = ds @ [(did, d')]"
        and "listed (invertedIdx s') (postings ds did (freq d'))"
        and "\<not> fromJSON s'" and "consolidated s' = consolidated ?s"
        and "set (map fst (freq d')) = set (map fst (freq ?d)) \<union> set (indexed_tokens ?s doc fws)"
        by blast
      with k1 tk Some v s1 show ?thesis
        by auto
    qed
  qed
qed

lemma stores_append:
  "stores docs h \<Longrightarrow> set (map fst (freq d)) = set tks \<Longrightarrow>
   stores (docs @ [(did, d)]) (h @ [(did, tks)])"
  by (simp add: stores_def list_all2_appendI)

lemma addDoc_index_lists_documents:
  assumes "index_lists_documents h s"
  shows "index_lists_documents
           (if rejected (fst (addDoc doc did s)) then h else h @ [(did, doc_tokens s doc)])
           (snd (addDoc doc did s))"
proof (cases "config s")
  case None
  with assms show ?thesis by (simp add: addDoc_no_config rejected_def)
next
  case (Some c)
  from assms have nc: "\<not> consolidated s" and nj: "\<not> fromJSON s"
    and dist: "distinct (map fst (documents s))"
    and st: "stores (documents s) h"
    and lst: "listed (invertedIdx s) (containing (documents s))"
    by (simp_all add: index_lists_documents_def)
  show ?thesis
  proof (cases "get_prop (fromJSON s) (documents s) did = Undefined")
    case False
    from assms show ?thesis
      by (simp add: addDoc_duplicate [OF Some nc False] index_lists_documents_def rejected_def)
  next
    case True
    with nj have notin: "did \<notin> set (map fst (documents s))"
      by (auto simp: get_prop_own map_of_eq_None_iff split: option.splits)
    let ?d = "\<lparr>freq = [], length_doc = 0\<rparr>"
    let ?s2 = "s\<lparr>learned := True, documents := AList.update did ?d (documents s)\<rparr>"
    obtain e s3 where fl: "field_loop did doc (fldWeights c) ?d ?s2 = (e, s3)"
      by (metis surj_pair)
    have docs2: "documents ?s2 = documents s @ [(did, ?d)]"
      using notin by (simp add: update_absent)
    have lst2: "listed (invertedIdx ?s2) (postings (documents s) did (freq ?d))"
      using lst by (simp add: postings_def listed_def)
    have tk: "indexed_tokens ?s2 doc (fldWeights c) = doc_tokens s doc"
      unfolding doc_tokens_def Some option.case
      by (rule indexed_tokens_pipelines) simp_all
    from field_loop_listed [OF fl docs2 notin _ lst2] nj nc tk
    obtain d' where d': "documents s3 = documents s @ [(did, d')]"
      and l3: "listed (invertedIdx s3) (postings (documents s) did (freq d'))"
      and j3: "\<not> fromJSON s3" and c3: "\<not> consolidated s3"
      and k3: "set (map fst (freq d')) = set (doc_tokens s doc)"
      by auto
    from l3 have "listed (invertedIdx s3) (containing (documents s3))"
      by (simp add: listed_def d' containing_append [OF notin])
    with d' dist notin j3 c3 stores_append [OF st k3, of did]
    have s3: "index_lists_documents (h @ [(did, doc_tokens s doc)]) s3"
      by (simp add: index_lists_documents_def)
    then have s4: "index_lists_documents (h @ [(did, doc_tokens s doc)])
                     (s3\<lparr>totalDocs := totalDocs s3 + 1\<rparr>)"
      by (simp add: index_lists_documents_def)
    show ?thesis
    proof (cases e)
      case None
      with fl s4 show ?thesis
        by (simp add: addDoc_new [OF Some nc True] rejected_def)
    next
      case (Some err)
      with fl field_loop_error [of did doc "fldWeights c" ?d ?s2 err s3]
      have "err = MissingField \<or> err = TypeError"
        by simp
      with Some fl s3 show ?thesis
        by (auto simp: addDoc_new [OF \<open>config s = Some c\<close> nc True] rejected_def)
    qed
  qed
qed

lemma built_index_lists_documents: "built h s \<Longrightarrow> index_lists_documents h s"
proof (induction rule: built.induct)
  case built_init
  show ?case
    by (simp add: index_lists_documents_def init_def listed_def containing_def stores_def)
next
  case (built_definePrepTasks h s tasks field)
  then show ?case
    by (auto simp: definePrepTasks_def index_lists_documents_def
        split: option.splits field_arg.splits)
next
  case (built_defineConfig h s arg)
  then show ?case
    by (auto simp: defineConfig_def index_lists_documents_def Let_def
        split: option.splits prod.splits)
next
  case (built_addDoc_rejected h s doc did)
  with addDoc_index_lists_documents [of h s doc did] show ?case by simp
next
  case (built_addDoc h s doc did)
  with addDoc_index_lists_documents [of h s doc did] show ?case by simp
next
  case (built_reset h s)
  show ?case
    by (simp add: index_lists_documents_def reset_def listed_def containing_def stores_def)
qed

lemma stores_keys: "stores docs h \<Longrightarrow> map fst docs = map fst h"
  unfolding stores_def by (induction rule: list_all2_induct) auto

lemma containing_distinct:
  assumes "distinct (map fst docs)"
  shows "containing docs t = map fst (filter (\<lambda>(did, d). t \<in> set (map fst (freq d))) docs)"
proof -
  have "filter ((\<lambda>did. case map_of docs did of None \<Rightarrow> False
                        | Some d \<Rightarrow> t \<in> set (map fst (freq d))) \<circ> fst) docs
          = filter (\<lambda>(did, d). t \<in> set (map fst (freq d))) docs"
    using assms by (intro filter_cong refl) force
  then show ?thesis
    by (simp add: containing_def filter_map)
qed

lemma stores_filter:
  "stores docs h \<Longrightarrow>
   map fst (filter (\<lambda>(did, d). t \<in> set (map fst (freq d))) docs) = docs_containing h t"
  unfolding stores_def docs_containing_def by (induction rule: list_all2_induct) auto

lemma stores_lookup:
  "stores docs h \<Longrightarrow> distinct (map fst docs) \<Longrightarrow> (did, tks) \<in> set h \<Longrightarrow>
   \<exists>d. map_of docs did = Some d \<and> set (map fst (freq d)) = set tks"
  unfolding stores_def
proof (induction rule: list_all2_induct)
  case Nil
  then show ?case by simp
next
  case (Cons x docs y h)
  obtain did0 d0 where x: "x = (did0, d0)" by (cases x)
  show ?case
  proof (cases "(did, tks) = y")
    case True
    with Cons.hyps(1) x show ?thesis by auto
  next
    case False
    with Cons.prems have "(did, tks) \<in> set h" and "distinct (map fst docs)"
      by simp_all
    from Cons.IH [OF this(2,1)] obtain d where d: "map_of docs did = Some d"
      and k: "set (map fst (freq d)) = set tks"
      by blast
    from d have "did \<in> set (map fst docs)"
      by (auto dest: map_of_SomeD intro: rev_image_eqI)
    with Cons.prems(1) x have "did \<noteq> did0"
      by auto
    with d k x show ?thesis by simp
  qed
qed

text \<open>
  C8. In every state built by \<open>addDoc\<close> calls (with pipeline and configuration definitions
  and resets, but no import and no consolidation), the store holds the documents that were
  added, in the order of their addition and each id once, the frequency map of each has
  exactly the tokens that the pipelines made of its fields, and the inverted index maps
  each term to the list of the ids of exactly the documents with that term among their
  tokens, in the order in which the documents were added, each id once however often the
  term occurs in the document; a term that no document has is not in the index.
\<close>

theorem inverted_index_lists_documents:
  assumes "built h s"
  shows "\<not> consolidated s \<and> map fst (documents s) = map fst h \<and> distinct (map fst h) \<and>
         (\<forall>(did, tks) \<in> set h.
            \<exists>d. map_of (documents s) did = Some d \<and> set (map fst (freq d)) = set tks) \<and>
         (\<forall>t. map_of (invertedIdx s) t
                = (if docs_containing h t = [] then None else Some (Ids (docs_containing h t))) \<and>
              distinct (docs_containing h t))"
proof -
  from built_index_lists_documents [OF assms]
  have nc: "\<not> consolidated s" and dist: "distinct (map fst (documents s))"
    and st: "stores (documents s) h"
    and lst: "listed (invertedIdx s) (containing (documents s))"
    by (simp_all add: index_lists_documents_def)
  from stores_keys [OF st] have keys: "map fst (documents s) = map fst h" .
  with dist have dh: "distinct (map fst h)"
    by simp
  have same: "containing (documents s) t = docs_containing h t" for t
    using containing_distinct [OF dist, of t] stores_filter [OF st, of t] by (simp only:)
  from dh have "distinct (docs_containing h t)" for t
    by (simp add: docs_containing_def distinct_map_filter)
  moreover have "\<forall>(did, tks) \<in> set h.
            \<exists>d. map_of (documents s) did = Some d \<and> set (map fst (freq d)) = set tks"
    using stores_lookup [OF st dist] by blast
  ultimately show ?thesis
    using nc keys dh lst by (simp add: listed_def same)
qed

lemma ex_learned_built:
  "built [(''d1'', [''a'', ''b'', ''a'']), (''d2'', [''c'', ''c'', ''a'']),
          (''d3'', [''d'', ''d'', ''d''])] ex_learned"
proof -
  let ?s1 = "snd (addDoc ex_doc1 ''d1'' ex_configured)"
  let ?s2 = "snd (addDoc ex_doc2 ''d2'' ?s1)"
  have b0: "built [] ex_configured"
    unfolding ex_configured_def by (intro built.intros)
  have r1: "\<not> rejected (fst (addDoc ex_doc1 ''d1'' ex_configured))"
    and r2: "\<not> rejected (fst (addDoc ex_doc2 ''d2'' ?s1))"
    and r3: "\<not> rejected (fst (addDoc ex_doc3 ''d3'' ?s2))"
    by (simp_all add: rejected_def ex_configured_eq ex_doc1_def ex_doc2_def ex_doc3_def
        init_def addDoc_def get_prop_def updateFreq_def prepareInput_def)
  have t1: "doc_tokens ex_configured ex_doc1 = [''a'', ''b'', ''a'']"
    and t2: "doc_tokens ?s1 ex_doc2 = [''c'', ''c'', ''a'']"
    and t3: "doc_tokens ?s2 ex_doc3 = [''d'', ''d'', ''d'']"
    by (simp_all add: doc_tokens_def ex_configured_eq ex_doc1_def ex_doc2_def ex_doc3_def
        init_def addDoc_def get_prop_def updateFreq_def prepareInput_def)
  from built_addDoc [OF b0 r1] have b1: "built [(''d1'', [''a'', ''b'', ''a''])] ?s1"
    by (simp add: t1)
  from built_addDoc [OF b1 r2]
  have b2: "built [(''d1'', [''a'', ''b'', ''a'']), (''d2'', [''c'', ''c'', ''a''])] ?s2"
    by (simp add: t2)
  from built_addDoc [OF b2 r3] show ?thesis
    by (simp add: t3 ex_learned_def)
qed

theorem inverted_index_lists_documents_witness:
  "built [(''d1'', [''a'', ''b'', ''a'']), (''d2'', [''c'', ''c'', ''a'']),
          (''d3'', [''d'', ''d'', ''d''])] ex_learned \<and>
   map fst (documents ex_learned) = [''d1'', ''d2'', ''d3''] \<and>
   (\<exists>d. map_of (documents ex_learned) ''d1'' = Some d \<and>
        set (map fst (freq d)) = {''a'', ''b''}) \<and>
   map_of (invertedIdx ex_learned) ''a'' = Some (Ids [''d1'', ''d2'']) \<and>
   map_of (invertedIdx ex_learned) ''z'' = None"
proof -
  let ?h = "[(''d1'', [''a'', ''b'', ''a'']), (''d2'', [''c'', ''c'', ''a'']),
             (''d3'', [''d'', ''d'', ''d''])]"
  have a: "docs_containing ?h ''a'' = [''d1'', ''d2'']"
    and z: "docs_containing ?h ''z'' = []"
    by (simp_all add: docs_containing_def)
  from inverted_index_lists_documents [OF ex_learned_built]
  have keys: "map fst (documents ex_learned) = map fst ?h"
    and each: "\<forall>(did, tks) \<in> set ?h.
                 \<exists>d. map_of (documents ex_learned) did = Some d \<and>
                     set (map fst (freq d)) = set tks"
    and ix: "\<And>t. map_of (invertedIdx ex_learned) t
          = (if docs_containing ?h t = [] then None else Some (Ids (docs_containing ?h t)))"
    by blast+
  from each have "\<exists>d. map_of (documents ex_learned) ''d1'' = Some d \<and>
                     set (map fst (freq d)) = set [''a'', ''b'', ''a'']"
    by simp
  then have d1: "\<exists>d. map_of (documents ex_learned) ''d1'' = Some d \<and>
                     set (map fst (freq d)) = {''a'', ''b''}"
    by (simp add: insert_commute)
  from ix [of "''a''"] ix [of "''z''"] a z keys d1 ex_learned_built show ?thesis
    by simp
qed

subsection \<open>Search\<close>








lemma descending_key_le:
  "descending_key (Finite a) \<le> descending_key (Finite b) \<longleftrightarrow> b \<le> a"
  by simp








text \<open>
  The hypothesis on the index holds on every instance that was built by \<open>addDoc\<close> calls
  and then consolidated, when the frequencies and idf values that the consolidation has
  stored are finite.
\<close>

lemma containing_member:
  "did \<in> set (containing docs t) \<Longrightarrow>
     \<exists>d. map_of docs did = Some d \<and> t \<in> set (map fst (freq d))"
  by (auto simp: containing_def split: option.splits)

lemma operand_finite:
  assumes "list_all (\<lambda>(t, f). is_Finite f) xs" and "t \<in> set (map fst xs)"
  shows "is_Finite (operand xs t)"
proof -
  from assms(2) obtain f where f: "map_of xs t = Some f"
    by (cases "map_of xs t") (auto simp: map_of_eq_None_iff)
  then have "(t, f) \<in> set xs"
    by (rule map_of_SomeD)
  with assms(1) have "is_Finite f"
    by (auto simp: list_all_iff)
  with f show ?thesis
    by (simp add: operand_def)
qed

lemma built_consolidate_index_agrees:
  assumes "built h s" and "consolidate s = (Inr True, s')" and "finite_values s'"
  shows "index_agrees s' tkns"
proof -
  from built_index_lists_documents [OF assms(1)]
  have nj: "\<not> fromJSON s" and dist: "distinct (map fst (documents s))"
    and lst: "listed (invertedIdx s) (containing (documents s))"
    by (simp_all add: index_lists_documents_def)
  from assms(2) obtain c where three: "3 \<le> totalDocs s" and c: "config s = Some c"
    by (auto simp: consolidate_def split: if_splits option.splits)
  define g :: "document \<Rightarrow> document" where "g = (\<lambda>d. d\<lparr>freq := map (\<lambda>(t, f).
                    (t, spec_frequency (param_k1 (bm25Params c))
                          (spec_normFactor (param_b (bm25Params c)) (length_doc d)
                             (totalCorpusLength s / real (totalDocs s))) f))
                    (freq d)\<rparr>)"
  from assms(2) have s': "s' = snd (consolidate s)"
    by simp
  have j': "\<not> fromJSON s'" and ix': "invertedIdx s' = invertedIdx s"
    and docs': "documents s' = map (\<lambda>(did, d). (did, g d)) (documents s)"
    and idf': "fst ` set (idf s') = fst ` set (idf s) \<union> fst ` set (invertedIdx s)"
    using nj by (simp_all add: s' g_def consolidate_success [OF three c] fold_idf_keys)
  have gkeys: "map fst (freq (g d)) = map fst (freq d)" for d
    by (simp add: g_def fst_comp_values)
  from assms(3) have fin_idf: "list_all (\<lambda>(t, i). is_Finite i) (idf s')"
    and fin_docs: "list_all (\<lambda>(did, d). list_all (\<lambda>(t, f). is_Finite f) (freq d)) (documents s')"
    by (simp_all add: finite_values_def)
  have "posting_ok s' t" for t
  proof (cases "map_of (invertedIdx s) t")
    case None
    with j' ix' show ?thesis
      by (simp add: posting_ok_def get_prop_def)
  next
    case (Some p)
    with lst have p: "p = Ids (containing (documents s) t)"
      by (auto simp: listed_def split: if_splits)
    from dist have d: "distinct (containing (documents s) t)"
      by (simp add: containing_def)
    from Some have "t \<in> fst ` set (invertedIdx s)"
      by (auto dest: map_of_SomeD intro: rev_image_eqI)
    with idf' have "t \<in> set (map fst (idf s'))"
      by simp
    from operand_finite [OF fin_idf this] have i: "is_Finite (idf_of s' t)"
      by (simp add: idf_of_def)
    have "case get_prop (fromJSON s') (documents s') did of
            Own d \<Rightarrow> is_Finite (operand (freq d) t) | _ \<Rightarrow> False"
      if "did \<in> set (containing (documents s) t)" for did
    proof -
      from that containing_member obtain d where
        doc: "map_of (documents s) did = Some d" and tin: "t \<in> set (map fst (freq d))"
        by blast
      from doc have new: "map_of (documents s') did = Some (g d)"
        by (simp add: docs' map_of_map_values)
      then have "(did, g d) \<in> set (documents s')"
        by (rule map_of_SomeD)
      with fin_docs have "list_all (\<lambda>(t, f). is_Finite f) (freq (g d))"
        by (auto simp: list_all_iff)
      moreover from tin have "t \<in> set (map fst (freq (g d)))"
        by (simp only: gkeys)
      ultimately have "is_Finite (operand (freq (g d)) t)"
        by (rule operand_finite)
      with new j' show ?thesis
        by (simp add: get_prop_def)
    qed
    then have "list_all (\<lambda>did. case get_prop (fromJSON s') (documents s') did of
                            Own d \<Rightarrow> is_Finite (operand (freq d) t)
                          | _ \<Rightarrow> False) (containing (documents s) t)"
      by (simp add: list_all_iff)
    with Some p d i j' ix' show ?thesis
      by (simp add: posting_ok_def get_prop_def)
  qed
  then show ?thesis
    by (simp add: index_agrees_def list_all_iff)
qed

lemma ex_consolidated_index_agrees: "index_agrees ex_consolidated tkns"
proof -
  have "consolidate ex_learned = (Inr True, ex_consolidated)"
    by (simp add: ex_consolidated_def ex_learned_eq ex_configured_eq init_def
        consolidate_success)
  moreover have "finite_values ex_consolidated"
    by (simp add: finite_values_def ex_consolidated_eq ex_learned_eq)
  ultimately show ?thesis
    by (rule built_consolidate_index_agrees [OF ex_learned_built])
qed

text \<open>The limit: at most \<open>max(limit, 1)\<close> entries for a limit that is not zero.\<close>

lemma search_length: "search q limit s = Inr rs \<Longrightarrow> length rs \<le> slice_end limit"
  by (auto simp: search_def split: if_splits option.splits sum.splits)

lemma slice_end_nonzero: "n \<noteq> 0 \<Longrightarrow> slice_end (Some n) = nat (max n 1)"
  by (simp add: slice_end_def)

text \<open>
  C4. With two documents that match, \<open>search\<close> with the limit 0 returns both: zero is
  falsy, so \<open>limit || 10\<close> is 10. With the limit -5, and with 1, it returns one.
\<close>

theorem search_limit_zero:
  "consolidated ex_consolidated \<and>
   search (Some ''a'') (Some 0) ex_consolidated
     = Inr [(''d1'', Finite (143 * ln (4 / 3) / 94)), (''d2'', Finite (286 * ln (4 / 3) / 277))] \<and>
   search (Some ''a'') (Some (- 5)) ex_consolidated
     = Inr [(''d1'', Finite (143 * ln (4 / 3) / 94))] \<and>
   search (Some ''a'') (Some 1) ex_consolidated
     = Inr [(''d1'', Finite (143 * ln (4 / 3) / 94))] \<and>
   slice_end (Some 0) = 10 \<and> slice_end (Some (- 5)) = 1 \<and> slice_end None = 10"
  by (simp add: ex_consolidated_eq ex_learned_eq ex_configured_eq init_def search_def
      prepareInput_def get_prop_def operand_def table_def sort_descendingOnValue_def
      slice_end_def)

subsection \<open>Calls that leave their mark, or fail, against the specification\<close>

text \<open>
  C5. \<open>addDoc\<close> with a document that lacks the configured field \<open>body\<close> fails with
  MissingField after it has stored the document under its id, indexed the tokens of the
  field \<open>title\<close>, added to the corpus length and set \<open>learned\<close>: a second \<open>addDoc\<close> with the
  same id fails with DuplicateId, and \<open>defineConfig\<close> with InvalidState.
\<close>

theorem addDoc_missing_field_mutates:
  "documents ex_configured = [] \<and> invertedIdx ex_configured = [] \<and>
   totalCorpusLength ex_configured = 0 \<and> \<not> learned ex_configured \<and>
   fst (addDoc ex_doc_no_body ''d4'' ex_configured) = Inl MissingField \<and>
   documents (snd (addDoc ex_doc_no_body ''d4'' ex_configured))
     = [(''d4'', \<lparr>freq = [(''x'', Finite 2), (''y'', Finite 2)], length_doc = 4\<rparr>)] \<and>
   invertedIdx (snd (addDoc ex_doc_no_body ''d4'' ex_configured))
     = [(''x'', Ids [''d4'']), (''y'', Ids [''d4''])] \<and>
   totalCorpusLength (snd (addDoc ex_doc_no_body ''d4'' ex_configured)) = 4 \<and>
   learned (snd (addDoc ex_doc_no_body ''d4'' ex_configured)) \<and>
   fst (addDoc ex_doc1 ''d4'' (snd (addDoc ex_doc_no_body ''d4'' ex_configured)))
     = Inl DuplicateId \<and>
   fst (defineConfig (Some ex_cfg) (snd (addDoc ex_doc_no_body ''d4'' ex_configured)))
     = Inl InvalidState"
  by (simp add: ex_configured_eq ex_doc_no_body_def ex_doc1_def init_def addDoc_def
      get_prop_def updateFreq_def prepareInput_def defineConfig_def)

text \<open>
  C9. On a configured instance without documents, \<open>addDoc\<close> with the id \<open>constructor\<close>
  succeeds and returns 1. After the export of that instance has been imported, the same
  call fails with DuplicateId: \<open>documents\<close> is then an object that \<^verbatim>\<open>JSON.parse\<close> made, and
  \<open>documents[ id ]\<close> is the function it inherits.
\<close>

theorem addDoc_after_import_differs:
  "\<not> consolidated ex_configured \<and>
   fst (addDoc ex_doc1 ''constructor'' ex_configured) = Inr 1 \<and>
   fst (importJSON (exportJSON ex_configured) ex_configured) = Inr True \<and>
   fst (addDoc ex_doc1 ''constructor'' (snd (importJSON (exportJSON ex_configured) ex_configured)))
     = Inl DuplicateId"
  by (simp add: ex_configured_eq ex_doc1_def init_def addDoc_def
      get_prop_def updateFreq_def prepareInput_def importJSON_def exportJSON_def reset_def
      object_prototype_def List.map_filter_def)

text \<open>
  Apart from the names of \<^verbatim>\<open>Object.prototype\<close>, the re-imported snapshot of an instance
  that is configured, not consolidated and not itself imported behaves like the instance:
  \<open>addDoc\<close> has the same outcome on both and leaves them alike again.
\<close>

lemma get_prop_own_name:
  "map_of object_prototype k = None \<Longrightarrow> get_prop inh obj k = get_prop False obj k"
  by (simp add: get_prop_def split: option.splits)

lemma freq_loop_own_names:
  "own_names ts \<Longrightarrow> freq_loop inh did w ts fr ix = freq_loop False did w ts fr ix"
proof (induction ts arbitrary: fr ix)
  case Nil
  show ?case by simp
next
  case (Cons t ts)
  from Cons.prems have t: "map_of object_prototype t = None" and ts: "own_names ts"
    by (simp_all add: own_names_def)
  have g: "get_prop inh ix t = get_prop False ix t"
    by (rule get_prop_own_name [OF t])
  have "get_prop False ix t \<noteq> Inherited a" for a
    by (simp add: get_prop_def split: option.splits)
  then show ?case
    by (simp add: g Cons.IH [OF ts] split: option.splits property.splits posting.splits)
qed

lemma prepareInput_same: "same_learning a b \<Longrightarrow> prepareInput b x field = prepareInput a x field"
  by (auto simp: prepareInput_def same_learning_def split: option.splits)

lemma updateFreq_same:
  assumes "same_learning a b"
    and "\<And>v. prepareInput a x field = Inr v \<Longrightarrow> own_names (tokens v)"
    and "\<not> fromJSON a"
  shows "fst (updateFreq did x w fr field b) = fst (updateFreq did x w fr field a) \<and>
         fst (snd (updateFreq did x w fr field b)) = fst (snd (updateFreq did x w fr field a)) \<and>
         same_learning (snd (snd (updateFreq did x w fr field a)))
           (snd (snd (updateFreq did x w fr field b))) \<and>
         \<not> fromJSON (snd (snd (updateFreq did x w fr field a)))"
proof (cases "prepareInput a x field")
  case (Inl e)
  with assms(1,3) show ?thesis
    by (simp add: updateFreq_def prepareInput_same [OF assms(1)])
next
  case (Inr v)
  from assms(2) [OF Inr] have own: "own_names (tokens v)" .
  from assms(1) have ix: "invertedIdx b = invertedIdx a"
    by (simp add: same_learning_def)
  obtain e fr1 ix1 where fl: "freq_loop False did w (tokens v) fr (invertedIdx a) = (e, fr1, ix1)"
    by (metis prod_cases3)
  with Inr assms(1,3) own ix show ?thesis
    by (cases e)
      (simp_all add: updateFreq_def prepareInput_same [OF assms(1)]
        freq_loop_own_names [OF own, of "fromJSON b"] same_learning_def)
qed

lemma own_tokens_pipelines:
  "own_tokens s doc \<Longrightarrow> pTasks s' = pTasks s \<Longrightarrow> pTaskCount s' = pTaskCount s \<Longrightarrow>
   flds s' = flds s \<Longrightarrow> own_tokens s' doc"
proof -
  assume own: "own_tokens s doc" and eq: "pTasks s' = pTasks s" "pTaskCount s' = pTaskCount s"
    "flds s' = flds s"
  have "prepareInput s' x field = prepareInput s x field" for x field
    by (rule prepareInput_pipelines) (fact eq)+
  with own show ?thesis
    by (simp add: own_tokens_def)
qed

lemma field_loop_same:
  "same_learning a b \<Longrightarrow> \<not> fromJSON a \<Longrightarrow> own_tokens a doc \<Longrightarrow>
   fst (field_loop did doc fws d b) = fst (field_loop did doc fws d a) \<and>
   same_learning (snd (field_loop did doc fws d a)) (snd (field_loop did doc fws d b)) \<and>
   \<not> fromJSON (snd (field_loop did doc fws d a))"
proof (induction fws arbitrary: d a b)
  case Nil
  then show ?case by simp
next
  case (Cons p fws)
  obtain field weight where p: "p = (field, weight)" by (cases p)
  show ?case
  proof (cases "doc field")
    case None
    with Cons.prems show ?thesis by (simp add: p)
  next
    case (Some str)
    obtain r fr1 a1 where ua: "updateFreq did (Text str) weight (freq d) field a = (r, fr1, a1)"
      by (metis prod_cases3)
    obtain r' fr1' b1 where ub: "updateFreq did (Text str) weight (freq d) field b = (r', fr1', b1)"
      by (metis prod_cases3)
    from Cons.prems(3) Some
    have tok: "\<And>v. prepareInput a (Text str) field = Inr v \<Longrightarrow> own_names (tokens v)"
      by (auto simp: own_tokens_def)
    from updateFreq_same [where a = a and b = b and x = "Text str" and field = field
        and did = did and w = weight and fr = "freq d", OF Cons.prems(1) tok Cons.prems(2)]
      ua ub
    have r: "r' = r" and fr: "fr1' = fr1" and same1: "same_learning a1 b1"
      and j1: "\<not> fromJSON a1"
      by simp_all
    from updateFreq_frame [OF ua] obtain ix where a1: "a1 = a\<lparr>invertedIdx := ix\<rparr>"
      by blast
    show ?thesis
    proof (cases r)
      case (Inl e)
      with Some ua ub r fr same1 j1 show ?thesis
        by (simp add: p same_learning_def)
    next
      case (Inr len)
      let ?d = "d\<lparr>freq := fr1, length_doc := length_doc d + len\<rparr>"
      let ?a = "a1\<lparr>documents := AList.update did ?d (documents a1),
                    totalCorpusLength := totalCorpusLength a1 + len\<rparr>"
      let ?b = "b1\<lparr>documents := AList.update did ?d (documents b1),
                    totalCorpusLength := totalCorpusLength b1 + len\<rparr>"
      from same1 have same2: "same_learning ?a ?b"
        by (simp add: same_learning_def)
      from j1 have j2: "\<not> fromJSON ?a"
        by simp
      have own2: "own_tokens ?a doc"
        by (rule own_tokens_pipelines [OF Cons.prems(3)]) (simp_all add: a1)
      from Cons.IH [OF same2 j2 own2, of ?d] Some ua ub r fr Inr show ?thesis
        by (simp add: p Let_def)
    qed
  qed
qed

lemma addDoc_same:
  assumes "same_learning a b" and "\<not> fromJSON a" and "own_tokens a doc"
    and "map_of object_prototype did = None"
  shows "fst (addDoc doc did b) = fst (addDoc doc did a) \<and>
         same_learning (snd (addDoc doc did a)) (snd (addDoc doc did b)) \<and>
         \<not> fromJSON (snd (addDoc doc did a))"
proof (cases "config a")
  case None
  with assms(1,2) show ?thesis
    by (simp add: addDoc_no_config same_learning_def)
next
  case (Some c)
  from assms(1) have cb: "config b = Some c" and docs: "documents b = documents a"
    and cons: "consolidated b = consolidated a"
    using Some by (simp_all add: same_learning_def)
  show ?thesis
  proof (cases "consolidated a")
    case True
    with assms(1,2) cons show ?thesis
      by (simp add: addDoc_consolidated)
  next
    case False
    with cons have nb: "\<not> consolidated b" by simp
    have gb: "get_prop (fromJSON b) (documents b) did = get_prop False (documents a) did"
      unfolding docs by (rule get_prop_own_name [OF assms(4)])
    from assms(2) have ga: "get_prop (fromJSON a) (documents a) did = get_prop False (documents a) did"
      by simp
    show ?thesis
    proof (cases "get_prop False (documents a) did = Undefined")
      case dup: False
      from dup ga have da: "get_prop (fromJSON a) (documents a) did \<noteq> Undefined"
        by simp
      from dup gb have db: "get_prop (fromJSON b) (documents b) did \<noteq> Undefined"
        by simp
      have "addDoc doc did a = (Inl DuplicateId, a\<lparr>learned := True\<rparr>)"
        by (rule addDoc_duplicate [OF Some False da])
      moreover have "addDoc doc did b = (Inl DuplicateId, b\<lparr>learned := True\<rparr>)"
        by (rule addDoc_duplicate [OF cb nb db])
      ultimately show ?thesis
        using assms(1,2) by (simp add: same_learning_def)
    next
      case True
      let ?d = "\<lparr>freq = [], length_doc = 0\<rparr>"
      let ?a = "a\<lparr>learned := True, documents := AList.update did ?d (documents a)\<rparr>"
      let ?b = "b\<lparr>learned := True, documents := AList.update did ?d (documents b)\<rparr>"
      from assms(1) have same2: "same_learning ?a ?b"
        by (simp add: same_learning_def)
      from assms(2) have j2: "\<not> fromJSON ?a"
        by simp
      have own2: "own_tokens ?a doc"
        by (rule own_tokens_pipelines [OF assms(3)]) simp_all
      obtain ea a3 where fa: "field_loop did doc (fldWeights c) ?d ?a = (ea, a3)"
        by (metis surj_pair)
      obtain eb b3 where fb: "field_loop did doc (fldWeights c) ?d ?b = (eb, b3)"
        by (metis surj_pair)
      from field_loop_same [OF same2 j2 own2, of did "fldWeights c" ?d] fa fb
      have e: "eb = ea" and same3: "same_learning a3 b3" and j3: "\<not> fromJSON a3"
        by simp_all
      from same3 have same4: "same_learning (a3\<lparr>totalDocs := totalDocs a3 + 1\<rparr>)
                         (b3\<lparr>totalDocs := totalDocs b3 + 1\<rparr>)"
        and n: "totalDocs b3 = totalDocs a3"
        by (simp_all add: same_learning_def)
      from True ga have ua: "get_prop (fromJSON a) (documents a) did = Undefined"
        by (simp only:)
      from True gb have ub: "get_prop (fromJSON b) (documents b) did = Undefined"
        by (simp only:)
      have ra: "addDoc doc did a =
                  (case ea of Some e \<Rightarrow> (Inl e, a3)
                   | None \<Rightarrow> (Inr (totalDocs a3 + 1), a3\<lparr>totalDocs := totalDocs a3 + 1\<rparr>))"
        by (simp add: addDoc_new [OF Some False ua] fa split: option.splits)
      have rb: "addDoc doc did b =
                  (case eb of Some e \<Rightarrow> (Inl e, b3)
                   | None \<Rightarrow> (Inr (totalDocs b3 + 1), b3\<lparr>totalDocs := totalDocs b3 + 1\<rparr>))"
        by (simp add: addDoc_new [OF cb nb ub] fb split: option.splits)
      from e same3 same4 n j3 show ?thesis
        by (cases ea) (simp_all add: ra rb)
    qed
  qed
qed

lemma Finite_real_of: "is_Finite x \<Longrightarrow> Finite (real_of x) = x"
  by (cases x) auto

lemma parse_stringify_freq:
  "list_all (\<lambda>(t, f). is_Finite f) xs \<Longrightarrow>
   map (\<lambda>(t, f). (t, Finite f)) (map (\<lambda>(t, f). (t, real_of f)) xs) = xs"
  by (induction xs) (auto simp: Finite_real_of)

lemma parse_stringify_document:
  "list_all (\<lambda>(t, f). is_Finite f) (freq d) \<Longrightarrow> parse_document (stringify_document d) = d"
  using parse_stringify_freq [of "freq d"]
  by (simp add: parse_document_def stringify_document_def)

lemma parse_stringify_documents:
  "list_all (\<lambda>(did, d). list_all (\<lambda>(t, f). is_Finite f) (freq d)) docs \<Longrightarrow>
   map ((\<lambda>(did, d). (did, parse_document d)) \<circ> (\<lambda>(did, d). (did, stringify_document d))) docs
     = docs"
  by (induction docs) (auto simp: parse_stringify_document)

lemma parse_stringify_index:
  "list_all (\<lambda>(t, p). case p of Ids ids \<Rightarrow> True | Function a \<Rightarrow> False) ix \<Longrightarrow>
   map (\<lambda>(t, ids). (t, Ids ids))
     (List.map_filter (\<lambda>(t, p). case p of Ids ids \<Rightarrow> Some (t, ids) | Function a \<Rightarrow> None) ix)
     = ix"
  by (induction ix) (auto simp: List.map_filter_simps split: posting.splits)

lemma import_export_same_learning:
  "config s = Some c \<Longrightarrow> \<not> consolidated s \<Longrightarrow> plain s \<Longrightarrow>
   same_learning s (snd (importJSON (exportJSON s) s))"
  by (simp add: same_learning_def importJSON_def exportJSON_def reset_def plain_def
      parse_stringify_documents parse_stringify_index)

text \<open>
  A state built by \<open>addDoc\<close> calls has finite frequencies and an index of arrays only, so
  that its snapshot gives back its documents and its index.
\<close>

lemma list_all_update: "list_all P xs \<Longrightarrow> P (k, v) \<Longrightarrow> list_all P (AList.update k v xs)"
  by (induction xs) auto

lemma freq_loop_finite:
  "freq_loop inh did w ts fr ix = (e, fr', ix') \<Longrightarrow> list_all (\<lambda>(t, f). is_Finite f) fr
     \<Longrightarrow> list_all (\<lambda>(t, f). is_Finite f) fr'"
proof (induction inh did w ts fr ix rule: freq_loop.induct)
  case (1 inh did weight fr ix)
  then show ?case by simp
next
  case (2 inh did weight t ts fr ix)
  show ?case
  proof (cases "map_of fr t")
    case None
    have "list_all (\<lambda>(t, f). is_Finite f) (AList.update t (Finite weight) fr)"
      using "2.prems"(2) by (simp add: list_all_update)
    with 2 None show ?thesis
      by (auto split: property.splits posting.splits option.splits)
  next
    case (Some f)
    then have "(t, f) \<in> set fr"
      by (rule map_of_SomeD)
    with "2.prems"(2) obtain a where "f = Finite a"
      by (cases f) (auto simp: list_all_iff)
    then have "list_all (\<lambda>(t, f). is_Finite f) (AList.update t (f + Finite weight) fr)"
      using "2.prems"(2) by (simp add: list_all_update)
    with 2 Some show ?thesis
      by simp
  qed
qed

lemma updateFreq_finite:
  "updateFreq did tx w fr field s = (r, fr', s') \<Longrightarrow> list_all (\<lambda>(t, f). is_Finite f) fr
     \<Longrightarrow> list_all (\<lambda>(t, f). is_Finite f) fr'"
  by (auto simp: updateFreq_def split: sum.splits prod.splits option.splits
      dest: freq_loop_finite)

lemma field_loop_finite:
  "field_loop did doc fws d s = (e, s') \<Longrightarrow>
   list_all (\<lambda>(did, d). list_all (\<lambda>(t, f). is_Finite f) (freq d)) (documents s) \<Longrightarrow>
   list_all (\<lambda>(t, f). is_Finite f) (freq d) \<Longrightarrow>
   list_all (\<lambda>(did, d). list_all (\<lambda>(t, f). is_Finite f) (freq d)) (documents s')"
proof (induction did doc fws d s rule: field_loop.induct)
  case (1 did doc d s)
  then show ?case by simp
next
  case (2 did doc field weight fws d s)
  show ?case
  proof (cases "doc field")
    case None
    with 2 show ?thesis by simp
  next
    case (Some str)
    obtain r fr1 s1 where u: "updateFreq did (Text str) weight (freq d) field s = (r, fr1, s1)"
      by (metis prod_cases3)
    from updateFreq_frame [OF u] obtain ix where s1: "s1 = s\<lparr>invertedIdx := ix\<rparr>"
      by blast
    from updateFreq_finite [OF u "2.prems"(3)] have f1: "list_all (\<lambda>(t, f). is_Finite f) fr1" .
    show ?thesis
    proof (cases r)
      case (Inl err)
      with "2.prems" Some u s1 f1 show ?thesis
        by (auto simp: list_all_update)
    next
      case (Inr len)
      let ?d = "d\<lparr>freq := fr1, length_doc := length_doc d + len\<rparr>"
      let ?s = "s1\<lparr>documents := AList.update did ?d (documents s1),
                    totalCorpusLength := totalCorpusLength s1 + len\<rparr>"
      from "2.prems"(1) Some u Inr have fl: "field_loop did doc fws ?d ?s = (e, s')"
        by (simp add: Let_def)
      have "list_all (\<lambda>(did, d). list_all (\<lambda>(t, f). is_Finite f) (freq d)) (documents ?s)"
        using "2.prems"(2) f1 s1 by (simp add: list_all_update)
      moreover have "list_all (\<lambda>(t, f). is_Finite f) (freq ?d)"
        using f1 by simp
      ultimately show ?thesis
        using "2.IH" [OF Some u [symmetric] Inr refl refl fl] by blast
    qed
  qed
qed

lemma addDoc_finite:
  assumes "list_all (\<lambda>(did, d). list_all (\<lambda>(t, f). is_Finite f) (freq d)) (documents s)"
  shows "list_all (\<lambda>(did, d). list_all (\<lambda>(t, f). is_Finite f) (freq d))
           (documents (snd (addDoc doc did s)))"
proof (cases "config s")
  case None
  with assms show ?thesis by (simp add: addDoc_no_config)
next
  case (Some c)
  show ?thesis
  proof (cases "consolidated s")
    case True
    with assms show ?thesis by (simp add: addDoc_consolidated)
  next
    case False
    show ?thesis
    proof (cases "get_prop (fromJSON s) (documents s) did = Undefined")
      case dup: False
      from assms show ?thesis
        by (simp add: addDoc_duplicate [OF Some False dup])
    next
      case True
      let ?d = "\<lparr>freq = [], length_doc = 0\<rparr>"
      let ?s2 = "s\<lparr>learned := True, documents := AList.update did ?d (documents s)\<rparr>"
      obtain e s3 where fl: "field_loop did doc (fldWeights c) ?d ?s2 = (e, s3)"
        by (metis surj_pair)
      have "list_all (\<lambda>(did, d). list_all (\<lambda>(t, f). is_Finite f) (freq d)) (documents ?s2)"
        using assms by (simp add: list_all_update)
      from field_loop_finite [OF fl this]
      have "list_all (\<lambda>(did, d). list_all (\<lambda>(t, f). is_Finite f) (freq d)) (documents s3)"
        by simp
      with fl show ?thesis
        by (cases e) (simp_all add: addDoc_new [OF Some False True])
    qed
  qed
qed

lemma built_reachable: "built h s \<Longrightarrow> reachable s"
  by (induction rule: built.induct) (auto intro: reachable.intros)

lemma built_finite:
  "built h s \<Longrightarrow> list_all (\<lambda>(did, d). list_all (\<lambda>(t, f). is_Finite f) (freq d)) (documents s)"
proof (induction rule: built.induct)
  case built_init
  show ?case by (simp add: init_def)
next
  case (built_definePrepTasks h s tasks field)
  then show ?case
    by (auto simp: definePrepTasks_def split: option.splits field_arg.splits)
next
  case (built_defineConfig h s arg)
  then show ?case
    by (auto simp: defineConfig_def Let_def split: option.splits prod.splits)
next
  case (built_addDoc_rejected h s doc did)
  then show ?case by (simp add: addDoc_finite)
next
  case (built_addDoc h s doc did)
  then show ?case by (simp add: addDoc_finite)
next
  case (built_reset h s)
  show ?case by (simp add: reset_def)
qed

lemma listed_Ids:
  assumes "listed ix p" and "distinct (map fst ix)"
  shows "list_all (\<lambda>(t, q). case q of Ids ids \<Rightarrow> True | Function a \<Rightarrow> False) ix"
proof -
  have "case q of Ids ids \<Rightarrow> True | Function a \<Rightarrow> False" if "(t, q) \<in> set ix" for t q
  proof -
    from that assms(2) have "map_of ix t = Some q"
      by simp
    with assms(1) have "q = Ids (p t)"
      by (auto simp: listed_def split: if_splits)
    then show ?thesis by simp
  qed
  then show ?thesis
    by (auto simp: list_all_iff)
qed

lemma built_plain: "built h s \<Longrightarrow> plain s"
proof -
  assume b: "built h s"
  from built_index_lists_documents [OF b]
  have "listed (invertedIdx s) (containing (documents s))"
    by (simp add: index_lists_documents_def)
  moreover from reachable_invariant [OF built_reachable [OF b]]
  have "distinct (map fst (invertedIdx s))"
    by (simp add: invariant_def)
  ultimately have "list_all (\<lambda>(t, q). case q of Ids ids \<Rightarrow> True | Function a \<Rightarrow> False)
                     (invertedIdx s)"
    by (rule listed_Ids)
  with built_finite [OF b] show ?thesis
    by (simp add: plain_def)
qed

lemma built_import_export_same_learning:
  assumes "built h s" and "config s = Some c"
  shows "same_learning s (snd (importJSON (exportJSON s) s))"
proof -
  from built_index_lists_documents [OF assms(1)] have "\<not> consolidated s"
    by (simp add: index_lists_documents_def)
  from import_export_same_learning [OF assms(2) this built_plain [OF assms(1)]]
  show ?thesis .
qed

text \<open>
  C10. With a default pipeline of one task and an empty pipeline for the field \<open>title\<close>,
  both accepted by \<open>definePrepTasks\<close>, \<open>addDoc\<close> fails with a TypeError: \<open>prepareInput\<close> takes
  the field's empty task list and the default's count.
\<close>

theorem empty_field_pipeline_TypeError:
  "fst (definePrepTasks (Some [Some split_chars]) NoField init) = Inr 1 \<and>
   fst (definePrepTasks (Some []) (Field ''title'')
          (snd (definePrepTasks (Some [Some split_chars]) NoField init))) = Inr 0 \<and>
   fst (defineConfig (Some ex_cfg) (ex_empty_pipeline ''title'')) = Inr True \<and>
   fst (addDoc ex_doc1 ''d1'' (snd (defineConfig (Some ex_cfg) (ex_empty_pipeline ''title''))))
     = Inl TypeError"
  by (simp add: ex_empty_pipeline_def ex_cfg_def ex_doc1_def init_def addDoc_def
      get_prop_def updateFreq_def prepareInput_def defineConfig_def definePrepTasks_def)

text \<open>
  The same kind of failure after an import: the inverted index is then an object that
  \<^verbatim>\<open>JSON.parse\<close> made, and for the token \<open>constructor\<close> the expression
  \<open>invertedIdx[ t ] || []\<close> is the inherited function, which has no \<^verbatim>\<open>push\<close>.
\<close>

lemma addDoc_after_import_TypeError:
  "fst (addDoc (map_of [(''title'', ''constructor''), (''body'', ''x'')]) ''d1'' ex_reimported)
     = Inl TypeError"
  by (simp add: ex_reimported_def ex_cfg_def init_def defineConfig_def definePrepTasks_def
      addDoc_def get_prop_def updateFreq_def prepareInput_def one_token_def
      default_bm25Params_def importJSON_def exportJSON_def reset_def object_prototype_def Let_def
      List.map_filter_def)


end
